theory Spec2Isabelle
  imports Complex_Main "HOL-Library.Multiset"
begin

section \<open>BioSim: a shallow embedding of SimuladorVida.py\<close>

text \<open>
  The simulation engine of \<^verbatim>\<open>src/SimuladorVida.py\<close>: the spatial grid, the agents with
  their steering physics, the behaviour of prey and predators, and the tick
  \<^verbatim>\<open>SimulationApp.run_sim_logic\<close>.

  Conventions of the embedding.
  \<^item> Python floats are idealised as \<^typ>\<open>real\<close> wherever rounding does not decide a
    property; the functions whose properties depend on rounding are given a second time
    in double precision. Infinities and NaN are not modelled. Python integers are
    \<^typ>\<open>int\<close>, lengths and counters \<^typ>\<open>nat\<close>.
  \<^item> Exceptions are values: every function that can raise returns \<open>error + 'a\<close>, with
    \<open>Inl\<close> the exception.
  \<^item> The random generator is an explicit stream of unit draws, threaded through every
    function that draws from it.
  \<^item> Objects that are shared between a live list and a spatial grid are kept in the live
    list; the grid holds references, modelled as indices into that list.
  \<^item> Rendering (\<^verbatim>\<open>draw\<close>, the HUD, the screens) is not part of the embedding.
\<close>

subsection \<open>Constants\<close>

definition SCREEN_W :: real where "SCREEN_W = 1280"
definition SCREEN_H :: real where "SCREEN_H = 720"
definition WORLD_W :: real where "WORLD_W = 2000"
definition WORLD_H :: real where "WORLD_H = 2000"
definition CELL_SIZE :: real where "CELL_SIZE = 120"

definition PREY_START :: nat where "PREY_START = 100"
definition PREDATOR_START :: nat where "PREDATOR_START = 8"
definition FOOD_RATE :: real where "FOOD_RATE = 3 / 10"
definition PREY_METABOLISM :: real where "PREY_METABOLISM = 1 / 2"
definition PRED_METABOLISM :: real where "PRED_METABOLISM = 8 / 10"
definition REPRO_COST_PREY :: real where "REPRO_COST_PREY = 100"
definition REPRO_COST_PRED :: real where "REPRO_COST_PRED = 250"

definition C_CYAN :: "nat \<times> nat \<times> nat" where "C_CYAN = (0, 255, 240)"
definition C_RED :: "nat \<times> nat \<times> nat" where "C_RED = (255, 40, 80)"
definition C_WHITE :: "nat \<times> nat \<times> nat" where "C_WHITE = (220, 220, 220)"

subsection \<open>Exceptions\<close>

datatype error = ValueError | KeyError | ZeroDivisionError

definition ebind :: "error + 'a \<Rightarrow> ('a \<Rightarrow> error + 'b) \<Rightarrow> error + 'b" where
  "ebind m f = (case m of Inl e \<Rightarrow> Inl e | Inr x \<Rightarrow> f x)"

subsection \<open>pygame.math.Vector2\<close>

text \<open>
  The operations of pygame's \<^verbatim>\<open>Vector2\<close> that the engine calls, with the library's
  behaviour: \<^verbatim>\<open>scale_to_length\<close> raises \<^verbatim>\<open>ValueError\<close> on a vector shorter than the
  vector's epsilon (\<open>1e-6\<close> by default), \<^verbatim>\<open>normalize\<close> raises it on a vector of length
  zero, and dividing by the scalar zero raises \<^verbatim>\<open>ZeroDivisionError\<close>.
\<close>

type_synonym Vector2 = "real \<times> real"

definition VECTOR_EPSILON :: real where "VECTOR_EPSILON = 1 / 1000000"

fun vadd :: "Vector2 \<Rightarrow> Vector2 \<Rightarrow> Vector2" where
  "vadd (a, b) (c, d) = (a + c, b + d)"

fun vsub :: "Vector2 \<Rightarrow> Vector2 \<Rightarrow> Vector2" where
  "vsub (a, b) (c, d) = (a - c, b - d)"

fun vmul :: "Vector2 \<Rightarrow> real \<Rightarrow> Vector2" where
  "vmul (a, b) k = (a * k, b * k)"

fun length_squared :: "Vector2 \<Rightarrow> real" where
  "length_squared (a, b) = a * a + b * b"

definition vlength :: "Vector2 \<Rightarrow> real" where
  "vlength v = sqrt (length_squared v)"

definition distance_to :: "Vector2 \<Rightarrow> Vector2 \<Rightarrow> real" where
  "distance_to v w = vlength (vsub w v)"

definition scale_to_length :: "Vector2 \<Rightarrow> real \<Rightarrow> error + Vector2" where
  "scale_to_length v new_length =
     (let old_length = vlength v in
      if old_length < VECTOR_EPSILON then Inl ValueError
      else Inr (vmul v (new_length / old_length)))"

definition normalize :: "Vector2 \<Rightarrow> error + Vector2" where
  "normalize v =
     (let l = vlength v in
      if l = 0 then Inl ValueError else Inr (vmul v (1 / l)))"

definition vdiv :: "Vector2 \<Rightarrow> real \<Rightarrow> error + Vector2" where
  "vdiv v k = (if k = 0 then Inl ZeroDivisionError else Inr (vmul v (1 / k)))"

fun rotate_rad :: "Vector2 \<Rightarrow> real \<Rightarrow> Vector2" where
  "rotate_rad (a, b) t = (a * cos t - b * sin t, a * sin t + b * cos t)"

subsection \<open>The random module\<close>

text \<open>
  The generator is the stream of the values that \<^verbatim>\<open>random.random()\<close> will return, each
  in \<open>[0, 1)\<close>. \<^verbatim>\<open>random.uniform(a, b)\<close> is \<^verbatim>\<open>a + (b - a) * random()\<close>, as in the
  standard library; \<^verbatim>\<open>random.randint(a, b)\<close> is abstracted to the integer of
  \<open>[a, b]\<close> that the next unit draw selects.
\<close>

type_synonym rng = "nat \<Rightarrow> real"

definition rng_ok :: "rng \<Rightarrow> bool" where
  "rng_ok r = (\<forall>n. 0 \<le> r n \<and> r n < 1)"

definition random :: "rng \<Rightarrow> real \<times> rng" where
  "random r = (r 0, \<lambda>n. r (Suc n))"

definition uniform :: "real \<Rightarrow> real \<Rightarrow> rng \<Rightarrow> real \<times> rng" where
  "uniform a b r = (case random r of (u, r') \<Rightarrow> (a + (b - a) * u, r'))"

definition randint :: "int \<Rightarrow> int \<Rightarrow> rng \<Rightarrow> int \<times> rng" where
  "randint a b r = (case random r of (u, r') \<Rightarrow> (a + \<lfloor>u * real_of_int (b - a + 1)\<rfloor>, r'))"

subsection \<open>Entities and agents\<close>

record Entity =
  pos :: Vector2
  active :: bool

definition Entity_init :: "real \<Rightarrow> real \<Rightarrow> Entity" where
  "Entity_init x y = \<lparr>pos = (x, y), active = True\<rparr>"

text \<open>A genome is a Python dict; its items are kept in insertion order.\<close>

type_synonym genome = "(string \<times> real) list"

definition dna_get :: "genome \<Rightarrow> string \<Rightarrow> error + real" where
  "dna_get d k = (case map_of d k of None \<Rightarrow> Inl KeyError | Some v \<Rightarrow> Inr v)"

record Agent = Entity +
  vel :: Vector2
  acc :: Vector2
  dna :: genome
  energy :: real
  max_energy :: real
  radius :: real
  color :: "nat \<times> nat \<times> nat"
  wander_theta :: real

text \<open>\<^verbatim>\<open>Agent.__init__\<close>: the velocity and the wander angle are drawn at random.\<close>

definition Agent_init :: "real \<Rightarrow> real \<Rightarrow> genome \<Rightarrow> rng \<Rightarrow> Agent \<times> rng" where
  "Agent_init x y d r =
     (case uniform (- 1) 1 r of (vx, r1) \<Rightarrow>
      case uniform (- 1) 1 r1 of (vy, r2) \<Rightarrow>
      case uniform 0 100 r2 of (th, r3) \<Rightarrow>
        (\<lparr>pos = (x, y), active = True, vel = (vx, vy), acc = (0, 0), dna = d,
          energy = 150, max_energy = 400, radius = 5, color = C_WHITE,
          wander_theta = th\<rparr>, r3))"

text \<open>\<^verbatim>\<open>dna if dna else default\<close>: \<^verbatim>\<open>None\<close> and the empty dict both give the default.\<close>

definition dna_or_default :: "genome option \<Rightarrow> genome \<Rightarrow> genome" where
  "dna_or_default d dflt = (case d of None \<Rightarrow> dflt | Some g \<Rightarrow> if g = [] then dflt else g)"

definition PREY_DNA :: genome where
  "PREY_DNA = [(''speed'', 35 / 10), (''force'', 5 / 10), (''sense'', 100)]"

definition PRED_DNA :: genome where
  "PRED_DNA = [(''speed'', 42 / 10), (''force'', 3 / 10), (''sense'', 180)]"

definition Prey_init :: "real \<Rightarrow> real \<Rightarrow> genome option \<Rightarrow> rng \<Rightarrow> Agent \<times> rng" where
  "Prey_init x y d r =
     (case Agent_init x y (dna_or_default d PREY_DNA) r of
        (a, r') \<Rightarrow> (a\<lparr>color := C_CYAN, radius := 5\<rparr>, r'))"

definition Predator_init :: "real \<Rightarrow> real \<Rightarrow> genome option \<Rightarrow> rng \<Rightarrow> Agent \<times> rng" where
  "Predator_init x y d r =
     (case Agent_init x y (dna_or_default d PRED_DNA) r of
        (a, r') \<Rightarrow> (a\<lparr>color := C_RED, radius := 8, energy := 300\<rparr>, r'))"

subsection \<open>Agent physics\<close>

text \<open>\<^verbatim>\<open>Agent.edges\<close>: four tests in sequence, each on the position the previous one left.\<close>

definition edges :: "Agent \<Rightarrow> Agent" where
  "edges a =
     (let (x, y) = pos a;
          x1 = (if x > WORLD_W then 0 else x);
          x2 = (if x1 < 0 then WORLD_W else x1);
          y1 = (if y > WORLD_H then 0 else y);
          y2 = (if y1 < 0 then WORLD_H else y1)
      in a\<lparr>pos := (x2, y2)\<rparr>)"

definition update_physics :: "Agent \<Rightarrow> error + Agent" where
  "update_physics a =
     (let v = vadd (vel a) (acc a) in
      ebind (dna_get (dna a) ''speed'') (\<lambda>speed.
      ebind (if vlength v > speed then scale_to_length v speed else Inr v) (\<lambda>v'.
        Inr (edges (a\<lparr>vel := v', pos := vadd (pos a) v', acc := vmul (acc a) 0\<rparr>)))))"

text \<open>\<^verbatim>\<open>Agent.steer\<close>\<close>

definition steer :: "Agent \<Rightarrow> Vector2 \<Rightarrow> real \<Rightarrow> error + Vector2" where
  "steer a target k =
     (let desired = vsub target (pos a) in
      if vlength desired = 0 then Inr (0, 0)
      else
        ebind (dna_get (dna a) ''speed'') (\<lambda>speed.
        ebind (scale_to_length desired speed) (\<lambda>desired'.
          let st = vsub desired' (vel a) in
          ebind (dna_get (dna a) ''force'') (\<lambda>force.
          ebind (if vlength st > force then scale_to_length st force else Inr st) (\<lambda>st'.
            Inr (vmul st' k))))))"

subsection \<open>SpatialGrid\<close>

text \<open>
  \<^verbatim>\<open>cells\<close> is a dict from a cell to the list of the objects registered there. \<^verbatim>\<open>add\<close>
  reads the object's position; here the caller passes it with the reference.
\<close>

type_synonym 'a SpatialGrid = "int \<times> int \<Rightarrow> 'a list option"

definition SpatialGrid_clear :: "'a SpatialGrid" where
  "SpatialGrid_clear = (\<lambda>idx. None)"

fun cell_of :: "Vector2 \<Rightarrow> int \<times> int" where
  "cell_of (x, y) = (\<lfloor>x / CELL_SIZE\<rfloor>, \<lfloor>y / CELL_SIZE\<rfloor>)"

definition SpatialGrid_add :: "Vector2 \<Rightarrow> 'a \<Rightarrow> 'a SpatialGrid \<Rightarrow> 'a SpatialGrid" where
  "SpatialGrid_add p obj cells =
     (let idx = cell_of p in
      case cells idx of
        None \<Rightarrow> cells(idx := Some [obj])
      | Some l \<Rightarrow> cells(idx := Some (l @ [obj])))"

definition bucket :: "'a SpatialGrid \<Rightarrow> int \<times> int \<Rightarrow> 'a list" where
  "bucket cells idx = (case cells idx of None \<Rightarrow> [] | Some l \<Rightarrow> l)"

definition get_nearby :: "'a SpatialGrid \<Rightarrow> Vector2 \<Rightarrow> int \<Rightarrow> 'a list" where
  "get_nearby cells p r =
     (case cell_of p of (cx, cy) \<Rightarrow>
        concat (map (\<lambda>x. concat (map (\<lambda>y. bucket cells (x, y)) [cy - r..cy + r]))
                    [cx - r..cx + r]))"

text \<open>
  \<^verbatim>\<open>for f in self.food: self.grid_food.add(f)\<close>: every object of a live list is
  registered, in list order; its reference is its index in the list.
\<close>

definition add_all :: "(Vector2 \<times> 'a) list \<Rightarrow> 'a SpatialGrid \<Rightarrow> 'a SpatialGrid" where
  "add_all es cells = fold (\<lambda>(p, obj). SpatialGrid_add p obj) es cells"

definition register :: "'a Entity_scheme list \<Rightarrow> nat SpatialGrid" where
  "register xs = add_all (map (\<lambda>(i, e). (pos e, i)) (enumerate 0 xs)) SpatialGrid_clear"

subsection \<open>Target selection\<close>

text \<open>
  The three nearest-target loops of \<^verbatim>\<open>Prey.update\<close> and \<^verbatim>\<open>Predator.update\<close>. The
  flag says whether the loop has the line \<^verbatim>\<open>if not f.active: continue\<close>: the food
  loop and the predator's prey loop have it, the prey's predator loop has not.
\<close>

fun closest_loop ::
  "bool \<Rightarrow> Vector2 \<Rightarrow> 'a Entity_scheme list \<Rightarrow> nat list \<Rightarrow> real \<Rightarrow> nat option \<Rightarrow> real \<times> nat option"
where
  "closest_loop chk p objs [] min_dist closest = (min_dist, closest)"
| "closest_loop chk p objs (i # is) min_dist closest =
     (if chk \<and> \<not> active (objs ! i) then closest_loop chk p objs is min_dist closest
      else
        let d = distance_to p (pos (objs ! i)) in
        if d < min_dist then closest_loop chk p objs is d (Some i)
        else closest_loop chk p objs is min_dist closest)"

subsection \<open>Prey.update\<close>

text \<open>Lines 172 to 201: flee from the closest predator, else eat.\<close>

definition Prey_flee_or_eat ::
  "Agent \<Rightarrow> Entity list \<Rightarrow> nat list \<Rightarrow> Agent list \<Rightarrow> nat list \<Rightarrow> error + (Vector2 \<times> Agent \<times> Entity list)"
where
  "Prey_flee_or_eat self food neighbors_food preds neighbors_pred =
     ebind (dna_get (dna self) ''sense'') (\<lambda>sense.
       case closest_loop False (pos self) preds neighbors_pred sense None of
         (min_p_dist, Some cp) \<Rightarrow>
           ebind (steer self (pos (preds ! cp)) (- 5)) (\<lambda>f.
             Inr (vadd (0, 0) f, self, food))
       | (min_p_dist, None) \<Rightarrow>
           if energy self < max_energy self then
             ebind (dna_get (dna self) ''sense'') (\<lambda>sense'.
               case closest_loop True (pos self) food neighbors_food sense' None of
                 (min_f_dist, Some cf) \<Rightarrow>
                   ebind (steer self (pos (food ! cf)) (15 / 10)) (\<lambda>f.
                     if min_f_dist < 10 then
                       Inr (vadd (0, 0) f, self\<lparr>energy := energy self + 50\<rparr>,
                            food[cf := (food ! cf)\<lparr>active := False\<rparr>])
                     else Inr (vadd (0, 0) f, self, food))
               | (min_f_dist, None) \<Rightarrow> Inr ((0, 0), self, food))
           else Inr ((0, 0), self, food))"

text \<open>Lines 203 to 209: wander when the force so far is short.\<close>

definition Prey_wander :: "Vector2 \<Rightarrow> Agent \<Rightarrow> rng \<Rightarrow> error + (Vector2 \<times> Agent \<times> rng)" where
  "Prey_wander force self r =
     (if vlength force < 1 / 10 then
        case uniform (- (3 / 10)) (3 / 10) r of (du, r') \<Rightarrow>
          let self1 = self\<lparr>wander_theta := wander_theta self + du\<rparr> in
          ebind (if vlength (vel self1) > 0
                 then ebind (normalize (vel self1)) (\<lambda>n. Inr (vmul n 30))
                 else Inr (1, 0)) (\<lambda>circle.
            let offset = rotate_rad (10, 0) (wander_theta self1) in
            ebind (steer self1 (vadd (vadd (pos self1) circle) offset) (5 / 10)) (\<lambda>f.
              Inr (vadd force f, self1, r')))
      else Inr (force, self, r))"

definition Prey_update ::
  "Agent \<Rightarrow> nat SpatialGrid \<Rightarrow> Entity list \<Rightarrow> nat SpatialGrid \<Rightarrow> Agent list \<Rightarrow> rng
     \<Rightarrow> error + (Agent \<times> Entity list \<times> rng)"
where
  "Prey_update self grid_food food grid_pred preds r =
     (let self1 = self\<lparr>energy := energy self
                   - (PREY_METABOLISM + length_squared (vel self) * (1 / 100))\<rparr>;
          neighbors_pred = get_nearby grid_pred (pos self1) 1;
          neighbors_food = get_nearby grid_food (pos self1) 1
      in
      ebind (Prey_flee_or_eat self1 food neighbors_food preds neighbors_pred)
        (\<lambda>(force, self2, food').
      ebind (Prey_wander force self2 r) (\<lambda>(force', self3, r').
      ebind (update_physics (self3\<lparr>acc := vadd (acc self3) force'\<rparr>)) (\<lambda>self4.
        Inr (self4, food', r')))))"

subsection \<open>Predator.update\<close>

text \<open>Lines 227 to 247: hunt the closest active prey, else patrol.\<close>

definition Predator_hunt_or_patrol ::
  "Agent \<Rightarrow> Agent list \<Rightarrow> nat list \<Rightarrow> rng \<Rightarrow> error + (Vector2 \<times> Agent \<times> Agent list \<times> rng)"
where
  "Predator_hunt_or_patrol self prey neighbors r =
     ebind (dna_get (dna self) ''sense'') (\<lambda>sense.
       case closest_loop True (pos self) prey neighbors sense None of
         (min_dist, Some c) \<Rightarrow>
           ebind (steer self (pos (prey ! c)) (12 / 10)) (\<lambda>f.
             if min_dist < 12 then
               Inr (vadd (0, 0) f, self\<lparr>energy := energy self + 120\<rparr>,
                    prey[c := (prey ! c)\<lparr>active := False\<rparr>], r)
             else Inr (vadd (0, 0) f, self, prey, r))
       | (min_dist, None) \<Rightarrow>
           (case uniform (- (1 / 10)) (1 / 10) r of (du, r') \<Rightarrow>
              let self2 = self\<lparr>wander_theta := wander_theta self + du\<rparr> in
              Inr (vadd (0, 0) (vmul (rotate_rad (1, 0) (wander_theta self2)) (5 / 10)),
                   self2, prey, r')))"

definition Predator_update ::
  "Agent \<Rightarrow> nat SpatialGrid \<Rightarrow> Agent list \<Rightarrow> rng \<Rightarrow> error + (Agent \<times> Agent list \<times> rng)"
where
  "Predator_update self grid_prey prey r =
     (let self1 = self\<lparr>energy := energy self
                   - (PRED_METABOLISM + length_squared (vel self) * (1 / 100))\<rparr>;
          neighbors = get_nearby grid_prey (pos self1) 2
      in
      ebind (Predator_hunt_or_patrol self1 prey neighbors r) (\<lambda>(force, self3, prey', r').
      ebind (update_physics (self3\<lparr>acc := vadd (acc self3) force\<rparr>)) (\<lambda>self4.
        Inr (self4, prey', r'))))"

subsection \<open>Camera\<close>

text \<open>
  The camera turns screen positions into world positions for the mouse. Its rectangle, width
  and height are read by nothing in the engine and are left out.
\<close>

record Camera =
  zoom_level :: real
  target_zoom :: real
  offset :: Vector2
  overview_mode :: bool

definition toggle_overview :: "Camera \<Rightarrow> Camera" where
  "toggle_overview c =
     (let c1 = c\<lparr>overview_mode := \<not> overview_mode c\<rparr> in
      if overview_mode c1 then
        let scale_x = SCREEN_W / WORLD_W; scale_y = SCREEN_H / WORLD_H in
        c1\<lparr>target_zoom := min scale_x scale_y * (9 / 10)\<rparr>
      else c1\<lparr>target_zoom := 1\<rparr>)"

text \<open>Both branches of \<^verbatim>\<open>Camera.update\<close> set the same offset.\<close>

definition Camera_update :: "Camera \<Rightarrow> Camera" where
  "Camera_update c =
     (let c1 = c\<lparr>zoom_level := zoom_level c + (target_zoom c - zoom_level c) * (1 / 10)\<rparr> in
      if overview_mode c1 then
        let target_x = (WORLD_W * zoom_level c1 - SCREEN_W) / 2;
            target_y = (WORLD_H * zoom_level c1 - SCREEN_H) / 2
        in c1\<lparr>offset := (- target_x, - target_y)\<rparr>
      else
        c1\<lparr>offset := (- ((WORLD_W * zoom_level c1 - SCREEN_W) / 2),
                       - ((WORLD_H * zoom_level c1 - SCREEN_H) / 2))\<rparr>)"

definition unapply :: "Camera \<Rightarrow> Vector2 \<Rightarrow> error + Vector2" where
  "unapply c screen_pos = vdiv (vsub screen_pos (offset c)) (zoom_level c)"

subsection \<open>SimulationApp\<close>

datatype app_state = INTRO | SIM | GAMEOVER

datatype key = K_ESCAPE | K_SPACE | K_OTHER

text \<open>
  A pygame event, as far as \<^verbatim>\<open>run_sim_logic\<close> looks at it. A mouse button event carries
  the button and the position that \<^verbatim>\<open>pygame.mouse.get_pos()\<close> returns while it is handled.
\<close>

datatype event = QUIT | KEYDOWN key | MOUSEBUTTONDOWN nat "int \<times> int" | OTHER_EVENT

text \<open>
  The fields of the application that the tick reads or writes. The screen, the clock, the
  fonts and the start time belong to the screens and are left out.
\<close>

record SimulationApp =
  running :: bool
  state :: app_state
  camera :: Camera
  food :: "Entity list"
  prey :: "Agent list"
  preds :: "Agent list"
  grid_food :: "nat SpatialGrid"
  grid_prey :: "nat SpatialGrid"
  grid_preds :: "nat SpatialGrid"
  stats_history_prey :: "nat list"
  stats_history_pred :: "nat list"
  max_prey :: nat
  max_pred :: nat

text \<open>\<^verbatim>\<open>deque(maxlen=200).append\<close>: a full deque drops its oldest element.\<close>

definition deque_append :: "nat list \<Rightarrow> nat \<Rightarrow> nat list" where
  "deque_append d v = (let d' = d @ [v] in if length d' > 200 then tl d' else d')"

text \<open>Lines 358 to 369: the body of the event loop, for one event.\<close>

definition handle_event :: "event \<Rightarrow> SimulationApp \<Rightarrow> rng \<Rightarrow> error + (SimulationApp \<times> rng)" where
  "handle_event ev s r =
     (let s1 = (if ev = QUIT then s\<lparr>running := False\<rparr> else s);
          s2 = (if ev = KEYDOWN K_ESCAPE then s1\<lparr>state := GAMEOVER\<rparr> else s1)
      in
      case ev of
        MOUSEBUTTONDOWN button (mx, my) \<Rightarrow>
          (let s3 = (if button = 3 then s2\<lparr>camera := toggle_overview (camera s2)\<rparr> else s2) in
           if button = 1 then
             ebind (unapply (camera s3) (real_of_int mx, real_of_int my)) (\<lambda>world_pos.
               case Predator_init (fst world_pos) (snd world_pos) None r of
                 (p, r') \<Rightarrow> Inr (s3\<lparr>preds := preds s3 @ [p]\<rparr>, r'))
           else Inr (s3, r))
      | _ \<Rightarrow> Inr (s2, r))"

fun handle_events :: "event list \<Rightarrow> SimulationApp \<Rightarrow> rng \<Rightarrow> error + (SimulationApp \<times> rng)" where
  "handle_events [] s r = Inr (s, r)"
| "handle_events (ev # evs) s r =
     ebind (handle_event ev s r) (\<lambda>(s', r'). handle_events evs s' r')"

text \<open>Lines 374 to 379: the grids are cleared and the live lists pruned.\<close>

definition alive :: "Agent \<Rightarrow> bool" where
  "alive p = (active p \<and> energy p > 0)"

definition prune :: "SimulationApp \<Rightarrow> SimulationApp" where
  "prune s =
     (let s1 = s\<lparr>grid_food := SpatialGrid_clear, grid_prey := SpatialGrid_clear,
                 grid_preds := SpatialGrid_clear\<rparr>
      in s1\<lparr>food := filter active (food s1), prey := filter alive (prey s1),
             preds := filter alive (preds s1)\<rparr>)"

text \<open>Lines 387 to 389.\<close>

definition register_grids :: "SimulationApp \<Rightarrow> SimulationApp" where
  "register_grids s =
     s\<lparr>grid_food := register (food s), grid_prey := register (prey s),
       grid_preds := register (preds s)\<rparr>"

text \<open>Lines 394 and 395; \<^verbatim>\<open>and\<close> draws from the generator only when the count is below the cap.\<close>

definition food_regrowth :: "Entity list \<Rightarrow> rng \<Rightarrow> Entity list \<times> rng" where
  "food_regrowth fs r =
     (if length fs < 800 then
        case random r of (u, r1) \<Rightarrow>
          if u < FOOD_RATE then
            case randint 0 \<lfloor>WORLD_W\<rfloor> r1 of (x, r2) \<Rightarrow>
            case randint 0 \<lfloor>WORLD_H\<rfloor> r2 of (y, r3) \<Rightarrow>
              (fs @ [Entity_init (real_of_int x) (real_of_int y)], r3)
          else (fs, r1)
      else (fs, r))"

text \<open>The dict comprehension of lines 405 and 416: one draw for each item, in order.\<close>

fun mutate_dna :: "genome \<Rightarrow> rng \<Rightarrow> genome \<times> rng" where
  "mutate_dna [] r = ([], r)"
| "mutate_dna ((k, v) # d) r =
     (case uniform (9 / 10) (11 / 10) r of (f, r1) \<Rightarrow>
      case mutate_dna d r1 of (d', r2) \<Rightarrow> ((k, v * f) # d', r2))"

text \<open>Lines 402 to 406: the reproduction of one prey, after its update.\<close>

definition prey_reproduce :: "Agent \<Rightarrow> rng \<Rightarrow> Agent \<times> Agent list \<times> rng" where
  "prey_reproduce p r =
     (if energy p > REPRO_COST_PREY + 50 then
        let p' = p\<lparr>energy := energy p - REPRO_COST_PREY\<rparr> in
        case mutate_dna (dna p') r of (new_dna, r1) \<Rightarrow>
        case Prey_init (fst (pos p')) (snd (pos p')) (Some new_dna) r1 of
          (child, r2) \<Rightarrow> (p', [child], r2)
      else (p, [], r))"

text \<open>Lines 414 to 417.\<close>

definition pred_reproduce :: "Agent \<Rightarrow> rng \<Rightarrow> Agent \<times> Agent list \<times> rng" where
  "pred_reproduce p r =
     (if energy p > REPRO_COST_PRED + 50 then
        let p' = p\<lparr>energy := energy p - REPRO_COST_PRED\<rparr> in
        case mutate_dna (dna p') r of (new_dna, r1) \<Rightarrow>
        case Predator_init (fst (pos p')) (snd (pos p')) (Some new_dna) r1 of
          (child, r2) \<Rightarrow> (p', [child], r2)
      else (p, [], r))"

text \<open>
  Lines 398 to 406: the loop over \<^verbatim>\<open>self.prey\<close>. It returns the prey of the list after
  their update and reproduction, the list \<^verbatim>\<open>new_prey\<close>, the food and the generator.
\<close>

fun prey_loop ::
  "Agent list \<Rightarrow> nat SpatialGrid \<Rightarrow> nat SpatialGrid \<Rightarrow> Agent list \<Rightarrow> Agent list \<Rightarrow> Entity list \<Rightarrow> rng
     \<Rightarrow> error + (Agent list \<times> Agent list \<times> Entity list \<times> rng)"
where
  "prey_loop [] gf gp ps new_prey fs r = Inr ([], new_prey, fs, r)"
| "prey_loop (p # rest) gf gp ps new_prey fs r =
     ebind (Prey_update p gf fs gp ps r) (\<lambda>(p1, fs1, r1).
       case prey_reproduce p1 r1 of (p2, born, r2) \<Rightarrow>
         ebind (prey_loop rest gf gp ps (new_prey @ born) fs1 r2) (\<lambda>(rest', new_prey', fs', r').
           Inr (p2 # rest', new_prey', fs', r')))"

text \<open>Lines 410 to 417: the loop over \<^verbatim>\<open>self.preds\<close>; the prey list is the store it hunts in.\<close>

fun pred_loop ::
  "Agent list \<Rightarrow> nat SpatialGrid \<Rightarrow> Agent list \<Rightarrow> Agent list \<Rightarrow> rng
     \<Rightarrow> error + (Agent list \<times> Agent list \<times> Agent list \<times> rng)"
where
  "pred_loop [] gy new_preds ys r = Inr ([], new_preds, ys, r)"
| "pred_loop (p # rest) gy new_preds ys r =
     ebind (Predator_update p gy ys r) (\<lambda>(p1, ys1, r1).
       case pred_reproduce p1 r1 of (p2, born, r2) \<Rightarrow>
         ebind (pred_loop rest gy (new_preds @ born) ys1 r2) (\<lambda>(rest', new_preds', ys', r').
           Inr (p2 # rest', new_preds', ys', r')))"

text \<open>Lines 421 to 425; the argument is the value of \<^verbatim>\<open>pygame.time.get_ticks()\<close>.\<close>

definition stats_update :: "nat \<Rightarrow> SimulationApp \<Rightarrow> SimulationApp" where
  "stats_update ticks s =
     (let s1 = s\<lparr>max_prey := max (max_prey s) (length (prey s)),
                 max_pred := max (max_pred s) (length (preds s))\<rparr>
      in if ticks mod 10 = 0 then
           s1\<lparr>stats_history_prey := deque_append (stats_history_prey s1) (length (prey s1)),
              stats_history_pred := deque_append (stats_history_pred s1) (length (preds s1))\<rparr>
         else s1)"

text \<open>Lines 373 to 425: the tick after the inputs and the camera.\<close>

definition sim_tick :: "nat \<Rightarrow> SimulationApp \<Rightarrow> rng \<Rightarrow> error + (SimulationApp \<times> rng)" where
  "sim_tick ticks s r =
     (let s1 = prune s in
      if length (prey s1) = 0 \<and> length (preds s1) = 0 then Inr (s1\<lparr>state := GAMEOVER\<rparr>, r)
      else
        let s2 = register_grids s1 in
        case food_regrowth (food s2) r of (fs, r1) \<Rightarrow>
        ebind (prey_loop (prey s2) (grid_food s2) (grid_preds s2) (preds s2) [] fs r1)
          (\<lambda>(prey', new_prey, fs', r2).
        ebind (pred_loop (preds s2) (grid_prey s2) [] (prey' @ new_prey) r2)
          (\<lambda>(preds', new_preds, prey'', r3).
            Inr (stats_update ticks
                   (s2\<lparr>food := fs', prey := prey'', preds := preds' @ new_preds\<rparr>), r3))))"

definition run_sim_logic ::
  "event list \<Rightarrow> nat \<Rightarrow> SimulationApp \<Rightarrow> rng \<Rightarrow> error + (SimulationApp \<times> rng)"
where
  "run_sim_logic evs ticks s r =
     ebind (handle_events evs s r) (\<lambda>(s1, r1).
       sim_tick ticks (s1\<lparr>camera := Camera_update (camera s1)\<rparr>) r1)"

subsection \<open>Double precision\<close>

text \<open>
  The numbers of Python and of pygame's vectors are IEEE 754 doubles: the result of
  \<^verbatim>\<open>+\<close>, \<^verbatim>\<open>-\<close>, \<^verbatim>\<open>*\<close>, \<^verbatim>\<open>/\<close> and \<^verbatim>\<open>sqrt\<close> is the exact result rounded to the nearest
  number with a significand of 53 bits, a tie going to the even significand. \<open>fl\<close> is
  that rounding, with an exponent that is not bounded: it is the rounding of the machine
  on the results between \<open>2\<^sup>-\<^sup>1\<^sup>0\<^sup>2\<^sup>2\<close> and \<open>2\<^sup>1\<^sup>0\<^sup>2\<^sup>4\<close> in magnitude; overflow to
  infinity and the subnormal numbers below are not modelled. The theorems on the
  functions of this section bound their inputs so that no result overflows and no
  subnormal result decides. \<open>rne\<close> rounds a real to the nearest integer, a tie going to
  the even one.
\<close>

definition rne :: "real \<Rightarrow> int" where
  "rne x =
     (let f = \<lfloor>x\<rfloor>; d = x - of_int f in
      if d < 1 / 2 then f else if 1 / 2 < d then f + 1 else if even f then f else f + 1)"

definition fl :: "real \<Rightarrow> real" where
  "fl x =
     (if x = 0 then 0
      else let p = 2 powr of_int (\<lfloor>log 2 \<bar>x\<bar>\<rfloor> - 52) in of_int (rne (x / p)) * p)"

text \<open>
  A function with the suffix \<open>_fl\<close> is the function of the same name above with every
  arithmetic operation rounded; comparisons and assignments are exact. pygame computes
  the length of a vector as the square root of the sum of the squares, accumulated from
  zero in the order of the coordinates; \<^verbatim>\<open>scale_to_length\<close> computes the old length in
  this way, divides the new length by it and multiplies each coordinate by the quotient.
  The literals \<^verbatim>\<open>1e-6\<close>, \<^verbatim>\<open>0.9\<close>, \<^verbatim>\<open>1.1\<close>, \<^verbatim>\<open>4.2\<close> and \<^verbatim>\<open>0.3\<close> denote the doubles nearest
  to them.
\<close>

fun vadd_fl :: "Vector2 \<Rightarrow> Vector2 \<Rightarrow> Vector2" where
  "vadd_fl (a, b) (c, d) = (fl (a + c), fl (b + d))"

fun vmul_fl :: "Vector2 \<Rightarrow> real \<Rightarrow> Vector2" where
  "vmul_fl (a, b) k = (fl (a * k), fl (b * k))"

fun length_squared_fl :: "Vector2 \<Rightarrow> real" where
  "length_squared_fl (a, b) = fl (fl (a * a) + fl (b * b))"

definition vlength_fl :: "Vector2 \<Rightarrow> real" where
  "vlength_fl v = fl (sqrt (length_squared_fl v))"

definition scale_to_length_fl :: "Vector2 \<Rightarrow> real \<Rightarrow> error + Vector2" where
  "scale_to_length_fl v new_length =
     (let old_length = vlength_fl v in
      if old_length < fl VECTOR_EPSILON then Inl ValueError
      else Inr (vmul_fl v (fl (new_length / old_length))))"

definition update_physics_fl :: "Agent \<Rightarrow> error + Agent" where
  "update_physics_fl a =
     (let v = vadd_fl (vel a) (acc a) in
      ebind (dna_get (dna a) ''speed'') (\<lambda>speed.
      ebind (if vlength_fl v > speed then scale_to_length_fl v speed else Inr v) (\<lambda>v'.
        Inr (edges (a\<lparr>vel := v', pos := vadd_fl (pos a) v', acc := vmul_fl (acc a) 0\<rparr>)))))"

text \<open>
  \<^verbatim>\<open>random.uniform(a, b)\<close> is \<^verbatim>\<open>a + (b - a) * random()\<close>, three operations. The
  constructors, the mutation of lines 405 and 416 and the reproduction of one prey and of
  one predator follow.
\<close>

definition uniform_fl :: "real \<Rightarrow> real \<Rightarrow> rng \<Rightarrow> real \<times> rng" where
  "uniform_fl a b r = (case random r of (u, r') \<Rightarrow> (fl (a + fl (fl (b - a) * u)), r'))"

definition Agent_init_fl :: "real \<Rightarrow> real \<Rightarrow> genome \<Rightarrow> rng \<Rightarrow> Agent \<times> rng" where
  "Agent_init_fl x y d r =
     (case uniform_fl (- 1) 1 r of (vx, r1) \<Rightarrow>
      case uniform_fl (- 1) 1 r1 of (vy, r2) \<Rightarrow>
      case uniform_fl 0 100 r2 of (th, r3) \<Rightarrow>
        (\<lparr>pos = (x, y), active = True, vel = (vx, vy), acc = (0, 0), dna = d,
          energy = 150, max_energy = 400, radius = 5, color = C_WHITE,
          wander_theta = th\<rparr>, r3))"

definition PREY_DNA_fl :: genome where
  "PREY_DNA_fl = map (\<lambda>(k, v). (k, fl v)) PREY_DNA"

definition PRED_DNA_fl :: genome where
  "PRED_DNA_fl = map (\<lambda>(k, v). (k, fl v)) PRED_DNA"

definition Prey_init_fl :: "real \<Rightarrow> real \<Rightarrow> genome option \<Rightarrow> rng \<Rightarrow> Agent \<times> rng" where
  "Prey_init_fl x y d r =
     (case Agent_init_fl x y (dna_or_default d PREY_DNA_fl) r of
        (a, r') \<Rightarrow> (a\<lparr>color := C_CYAN, radius := 5\<rparr>, r'))"

definition Predator_init_fl :: "real \<Rightarrow> real \<Rightarrow> genome option \<Rightarrow> rng \<Rightarrow> Agent \<times> rng" where
  "Predator_init_fl x y d r =
     (case Agent_init_fl x y (dna_or_default d PRED_DNA_fl) r of
        (a, r') \<Rightarrow> (a\<lparr>color := C_RED, radius := 8, energy := 300\<rparr>, r'))"

fun mutate_dna_fl :: "genome \<Rightarrow> rng \<Rightarrow> genome \<times> rng" where
  "mutate_dna_fl [] r = ([], r)"
| "mutate_dna_fl ((k, v) # d) r =
     (case uniform_fl (fl (9 / 10)) (fl (11 / 10)) r of (f, r1) \<Rightarrow>
      case mutate_dna_fl d r1 of (d', r2) \<Rightarrow> ((k, fl (v * f)) # d', r2))"

definition prey_reproduce_fl :: "Agent \<Rightarrow> rng \<Rightarrow> Agent \<times> Agent list \<times> rng" where
  "prey_reproduce_fl p r =
     (if energy p > REPRO_COST_PREY + 50 then
        let p' = p\<lparr>energy := fl (energy p - REPRO_COST_PREY)\<rparr> in
        case mutate_dna_fl (dna p') r of (new_dna, r1) \<Rightarrow>
        case Prey_init_fl (fst (pos p')) (snd (pos p')) (Some new_dna) r1 of
          (child, r2) \<Rightarrow> (p', [child], r2)
      else (p, [], r))"

definition pred_reproduce_fl :: "Agent \<Rightarrow> rng \<Rightarrow> Agent \<times> Agent list \<times> rng" where
  "pred_reproduce_fl p r =
     (if energy p > REPRO_COST_PRED + 50 then
        let p' = p\<lparr>energy := fl (energy p - REPRO_COST_PRED)\<rparr> in
        case mutate_dna_fl (dna p') r of (new_dna, r1) \<Rightarrow>
        case Predator_init_fl (fst (pos p')) (snd (pos p')) (Some new_dna) r1 of
          (child, r2) \<Rightarrow> (p', [child], r2)
      else (p, [], r))"

subsection \<open>Notions of the properties\<close>

text \<open>The closed rectangle of the world.\<close>

definition in_world :: "Vector2 \<Rightarrow> bool" where
  "in_world p = (0 \<le> fst p \<and> fst p \<le> WORLD_W \<and> 0 \<le> snd p \<and> snd p \<le> WORLD_H)"

text \<open>
  The cells that \<^verbatim>\<open>get_nearby\<close> visits, in the order of its two loops: the square of side
  \<open>2 * r + 1\<close> around a cell.
\<close>

definition square :: "int \<times> int \<Rightarrow> int \<Rightarrow> (int \<times> int) list" where
  "square c r = List.product [fst c - r..fst c + r] [snd c - r..snd c + r]"

text \<open>
  A grid whose references all point into a list of \<open>n\<close> objects, as every grid that
  \<^verbatim>\<open>run_sim_logic\<close> builds does for the list it was built from.
\<close>

definition grid_wf :: "nat SpatialGrid \<Rightarrow> nat \<Rightarrow> bool" where
  "grid_wf cells n = (\<forall>idx. \<forall>i \<in> set (bucket cells idx). i < n)"

text \<open>The energy of a prey and of a predator after the metabolism of one tick.\<close>

definition prey_metabolised :: "Agent \<Rightarrow> real" where
  "prey_metabolised a = energy a - (PREY_METABOLISM + length_squared (vel a) * (1 / 100))"

definition pred_metabolised :: "Agent \<Rightarrow> real" where
  "pred_metabolised a = energy a - (PRED_METABOLISM + length_squared (vel a) * (1 / 100))"

text \<open>
  A prey eats the item \<open>c\<close> of a food list: the food loop of lines 188 to 195 returns \<open>c\<close>
  as the closest item, and it is closer than 10. A predator catches the prey \<open>c\<close> of a
  prey list: the loop of lines 227 to 235 returns \<open>c\<close>, and it is closer than 12.
\<close>

definition eats :: "Agent \<Rightarrow> nat SpatialGrid \<Rightarrow> Entity list \<Rightarrow> nat \<Rightarrow> bool" where
  "eats p gf fs c =
     (\<exists>sense d. dna_get (dna p) ''sense'' = Inr sense
        \<and> closest_loop True (pos p) fs (get_nearby gf (pos p) 1) sense None = (d, Some c)
        \<and> d < 10)"

definition catches :: "Agent \<Rightarrow> nat SpatialGrid \<Rightarrow> Agent list \<Rightarrow> nat \<Rightarrow> bool" where
  "catches p gy ys c =
     (\<exists>sense d. dna_get (dna p) ''sense'' = Inr sense
        \<and> closest_loop True (pos p) ys (get_nearby gy (pos p) 2) sense None = (d, Some c)
        \<and> d < 12)"

subsection \<open>Example inputs\<close>

text \<open>Agents as the constructors build them, with the random fields chosen.\<close>

definition prey_at :: "Vector2 \<Rightarrow> Vector2 \<Rightarrow> real \<Rightarrow> genome \<Rightarrow> Agent" where
  "prey_at p v e d =
     \<lparr>pos = p, active = True, vel = v, acc = (0, 0), dna = d, energy = e, max_energy = 400,
      radius = 5, color = C_CYAN, wander_theta = 0\<rparr>"

definition predator_at :: "Vector2 \<Rightarrow> Vector2 \<Rightarrow> real \<Rightarrow> genome \<Rightarrow> Agent" where
  "predator_at p v e d =
     \<lparr>pos = p, active = True, vel = v, acc = (0, 0), dna = d, energy = e, max_energy = 400,
      radius = 8, color = C_RED, wander_theta = 0\<rparr>"

text \<open>
  Example A: a prey at rest at the origin with energy 110, and one food item at \<open>(3, 4)\<close>.
  Example B: a predator at rest at the origin with energy 300, and one prey at \<open>(3, 4)\<close>.
  The generator of the examples returns \<open>1 / 2\<close> at every draw.
\<close>

definition rng_half :: rng where
  "rng_half = (\<lambda>n. 1 / 2)"

definition food_A :: Entity where
  "food_A = Entity_init 3 4"

definition prey_A :: Agent where
  "prey_A = prey_at (0, 0) (0, 0) 110 PREY_DNA"

definition prey_A' :: Agent where
  "prey_A' = prey_at (9 / 20, 3 / 5) (9 / 20, 3 / 5) (319 / 2) PREY_DNA"

definition child_A :: Agent where
  "child_A = (prey_at (9 / 20, 3 / 5) (0, 0) 150 PREY_DNA)\<lparr>wander_theta := 50\<rparr>"

definition pred_B :: Agent where
  "pred_B = predator_at (0, 0) (0, 0) 300 PRED_DNA"

definition prey_B :: Agent where
  "prey_B = prey_at (3, 4) (0, 0) 150 PREY_DNA"

definition pred_B' :: Agent where
  "pred_B' = predator_at (27 / 125, 36 / 125) (27 / 125, 36 / 125) (2096 / 5) PRED_DNA"

definition child_B :: Agent where
  "child_B = (predator_at (27 / 125, 36 / 125) (0, 0) 300 PRED_DNA)\<lparr>wander_theta := 50\<rparr>"

text \<open>Example A as a whole application state, and the state after one tick of it.\<close>

definition camera_0 :: Camera where
  "camera_0 = \<lparr>zoom_level = 1, target_zoom = 1, offset = (0, 0), overview_mode = False\<rparr>"

definition app_A :: SimulationApp where
  "app_A =
     \<lparr>running = True, state = SIM, camera = camera_0, food = [food_A], prey = [prey_A],
      preds = [], grid_food = SpatialGrid_clear, grid_prey = SpatialGrid_clear,
      grid_preds = SpatialGrid_clear, stats_history_prey = [], stats_history_pred = [],
      max_prey = 0, max_pred = 0\<rparr>"

definition app_A' :: SimulationApp where
  "app_A' =
     app_A\<lparr>food := [food_A\<lparr>active := False\<rparr>], prey := [prey_A'\<lparr>energy := 119 / 2\<rparr>, child_A],
           grid_food := register [food_A], grid_prey := register [prey_A],
           grid_preds := register ([] :: Agent list), max_prey := 2\<rparr>"









text \<open>
  Example E: the state of example A without its prey, so that no agent is left.
  Example Z: the state of example A seen through a camera in overview whose zoom has come
  down to one half (the world is then narrower than the screen), and the predator that a
  left click in the corner \<open>(0, 0)\<close> of the screen creates, when the generator returns
  zero at its third draw (the wander angle) and \<open>1 / 2\<close> elsewhere.
\<close>

definition app_E :: SimulationApp where
  "app_E = app_A\<lparr>prey := []\<rparr>"

definition camera_Z :: Camera where
  "camera_Z = \<lparr>zoom_level = 1 / 2, target_zoom = 81 / 250, offset = (140, - 140),
               overview_mode = True\<rparr>"

definition app_Z :: SimulationApp where
  "app_Z = app_A\<lparr>camera := camera_Z\<rparr>"

definition rng_Z :: rng where
  "rng_Z = (\<lambda>n. if n = 2 then 0 else 1 / 2)"

definition pred_Z :: Agent where
  "pred_Z = predator_at (- 280, 280) (0, 0) 300 PRED_DNA"

definition pred_Z' :: Agent where
  "pred_Z' = predator_at (2000, 280) (1 / 2, 0) (1496 / 5) PRED_DNA"

definition app_Z' :: SimulationApp where
  "app_Z' =
     app_A'\<lparr>camera := Camera_update camera_Z, preds := [pred_Z'],
            grid_preds := register [pred_Z], max_pred := 1\<rparr>"

text \<open>
  Example F: a second prey at rest at \<open>(6, 8)\<close>, as close to the food of example A as the
  prey of example A. Example G: a second predator at rest at \<open>(6, 8)\<close>, as close to the
  prey of example B as the predator of example B.
\<close>

definition prey_F :: Agent where
  "prey_F = prey_at (6, 8) (0, 0) 110 PREY_DNA"

definition prey_F' :: Agent where
  "prey_F' = prey_at (25 / 4, 8) (1 / 4, 0) (219 / 2) PREY_DNA"

definition pred_G :: Agent where
  "pred_G = predator_at (6, 8) (0, 0) 300 PRED_DNA"

definition pred_G' :: Agent where
  "pred_G' = predator_at (13 / 2, 8) (1 / 2, 0) (1496 / 5) PRED_DNA"

text \<open>
  Example K: a prey with the velocity \<open>(4, 3)\<close> and the accumulated acceleration
  \<open>(6, 4.5)\<close>, so that the new velocity \<open>(10, 7.5)\<close> of length \<open>12.5\<close> is clamped to the
  speed \<open>3.5\<close>; and the agent that \<^verbatim>\<open>update_physics\<close> makes of it in double
  precision, with the velocity \<open>(2.8000000000000003, 2.1000000000000001)\<close>.
  Example Q: a prey with energy 200 and the default genome reproduces when the generator
  returns \<open>0\<close>, \<open>1 / 4\<close> and the largest value of \<^verbatim>\<open>random()\<close>, \<open>1 - 2\<^sup>-\<^sup>5\<^sup>3\<close>, for the three
  factors, and \<open>1 / 2\<close> from then on; \<open>DNA_Q\<close> is the genome of its child in double
  precision. Example R: a predator with energy 400 and the default genome, with the same
  generator; \<open>DNA_R\<close> is the genome of its child.
\<close>

definition agent_K :: Agent where
  "agent_K = (prey_at (0, 0) (4, 3) 150 PREY_DNA)\<lparr>acc := (6, 9 / 2)\<rparr>"

definition agent_K' :: Agent where
  "agent_K' =
     prey_at (6305039478318695 / 2 ^ 51, 4728779608739021 / 2 ^ 51)
             (6305039478318695 / 2 ^ 51, 4728779608739021 / 2 ^ 51) 150 PREY_DNA"

definition rng_Q :: rng where
  "rng_Q = (\<lambda>n. if n = 0 then 0 else if n = 1 then 1 / 4 else if n = 2 then 1 - 1 / 2 ^ 53
                 else 1 / 2)"

definition DNA_Q :: genome where
  "DNA_Q = [(''speed'', 7093169413108531 / 2 ^ 51), (''force'', 8556839292003943 / 2 ^ 54),
            (''sense'', 7740561859543041 / 2 ^ 46)]"

definition DNA_R :: genome where
  "DNA_R = [(''speed'', 8511803295730238 / 2 ^ 51), (''force'', 5134103575202366 / 2 ^ 54),
            (''sense'', 6966505673588737 / 2 ^ 45)]"

definition prey_Q :: Agent where
  "prey_Q = prey_at (3, 4) (0, 0) 200 PREY_DNA"

definition child_Q :: Agent where
  "child_Q = (prey_at (3, 4) (0, 0) 150 DNA_Q)\<lparr>wander_theta := 50\<rparr>"

definition pred_R :: Agent where
  "pred_R = predator_at (3, 4) (0, 0) 400 PRED_DNA_fl"

definition child_R :: Agent where
  "child_R = (predator_at (3, 4) (0, 0) 300 DNA_R)\<lparr>wander_theta := 50\<rparr>"

section \<open>Properties\<close>

subsection \<open>Vectors and errors\<close>

lemma vlength_nonneg: "0 \<le> vlength v"
  by (cases v) (simp add: vlength_def)

lemma vlength_vmul: "vlength (vmul v k) = \<bar>k\<bar> * vlength v"
proof (cases v)
  case (Pair a b)
  have "(a * k) * (a * k) + (b * k) * (b * k) = k\<^sup>2 * (a * a + b * b)"
    by (simp add: power2_eq_square algebra_simps)
  then show ?thesis
    using Pair by (simp add: vlength_def real_sqrt_mult)
qed

lemma scale_to_length_Inr: "scale_to_length v l = Inr w \<Longrightarrow> vlength w = \<bar>l\<bar>"
  by (auto simp: scale_to_length_def Let_def vlength_vmul VECTOR_EPSILON_def split: if_splits)

lemma ebind_Inr_iff: "ebind m f = Inr y \<longleftrightarrow> (\<exists>x. m = Inr x \<and> f x = Inr y)"
  by (cases m) (auto simp: ebind_def)

lemma ebind_Inr [simp]: "ebind (Inr x) f = f x"
  by (simp add: ebind_def)

lemma ebind_Inl [simp]: "ebind (Inl e) f = Inl e"
  by (simp add: ebind_def)

lemma sqrt_eqI: "0 \<le> r \<Longrightarrow> r * r = s \<Longrightarrow> sqrt s = r"
  using real_sqrt_abs2 [of r] by (simp add: power2_eq_square)

subsection \<open>Rounding\<close>

text \<open>
  The rounding error of \<open>fl\<close> is at most \<open>2\<^sup>-\<^sup>5\<^sup>3\<close> of the number; a number with a
  significand of 53 bits is its own rounding; a double that bounds a number bounds its
  rounding. \<open>fl_eqI\<close> and \<open>fl_sqrt_eqI\<close> evaluate \<open>fl\<close> at a given number.
\<close>

lemma rne_cases:
  "rne x = \<lfloor>x\<rfloor> \<and> x - of_int \<lfloor>x\<rfloor> \<le> 1 / 2
   \<or> rne x = \<lfloor>x\<rfloor> + 1 \<and> 1 / 2 \<le> x - of_int \<lfloor>x\<rfloor>"
  by (simp add: rne_def Let_def)

lemma rne_error: "\<bar>of_int (rne x) - x\<bar> \<le> 1 / 2"
proof -
  have f: "of_int \<lfloor>x\<rfloor> \<le> x" "x < of_int \<lfloor>x\<rfloor> + 1" by linarith+
  from rne_cases [of x] show ?thesis
  proof (elim disjE conjE)
    assume r: "rne x = \<lfloor>x\<rfloor>" and d: "x - of_int \<lfloor>x\<rfloor> \<le> 1 / 2"
    have "\<bar>of_int \<lfloor>x\<rfloor> - x\<bar> \<le> 1 / 2" using f d by (simp only: abs_le_iff) linarith
    then show ?thesis unfolding r .
  next
    assume r: "rne x = \<lfloor>x\<rfloor> + 1" and d: "1 / 2 \<le> x - of_int \<lfloor>x\<rfloor>"
    have "\<bar>of_int (\<lfloor>x\<rfloor> + 1) - x\<bar> \<le> 1 / 2" using f d by (simp only: of_int_add of_int_1 abs_le_iff) linarith
    then show ?thesis unfolding r .
  qed
qed

lemma rne_unique:
  assumes "\<bar>x - of_int m\<bar> < 1 / 2"
  shows "rne x = m"
proof -
  from assms have b: "of_int m - 1 / 2 < x" "x < of_int m + 1 / 2"
    by (simp_all add: abs_if split: if_splits)
  then have "\<lfloor>x\<rfloor> = m \<or> \<lfloor>x\<rfloor> = m - 1"
    by linarith
  then show ?thesis
  proof
    assume f: "\<lfloor>x\<rfloor> = m"
    with b have "x - of_int \<lfloor>x\<rfloor> < 1 / 2" by simp
    with f show ?thesis by (simp add: rne_def Let_def)
  next
    assume f: "\<lfloor>x\<rfloor> = m - 1"
    with b have "1 / 2 < x - of_int \<lfloor>x\<rfloor>" by simp
    with f show ?thesis by (simp add: rne_def Let_def)
  qed
qed

lemma rne_of_int [simp]: "rne (of_int m) = m"
  by (rule rne_unique) simp

lemma rne_le: "x \<le> of_int n \<Longrightarrow> rne x \<le> n"
proof -
  assume a: "x \<le> of_int n"
  have f: "of_int \<lfloor>x\<rfloor> \<le> x" "x < of_int \<lfloor>x\<rfloor> + 1" by linarith+
  from rne_cases [of x] show ?thesis
  proof (elim disjE conjE)
    assume "rne x = \<lfloor>x\<rfloor>"
    with a show ?thesis by (simp add: floor_le_iff)
  next
    assume r: "rne x = \<lfloor>x\<rfloor> + 1" and "1 / 2 \<le> x - of_int \<lfloor>x\<rfloor>"
    then have "of_int \<lfloor>x\<rfloor> < x" by simp
    with a have "of_int \<lfloor>x\<rfloor> < (of_int n :: real)" by simp
    then have "\<lfloor>x\<rfloor> < n" by simp
    with r show ?thesis by simp
  qed
qed

lemma rne_ge: "of_int n \<le> x \<Longrightarrow> n \<le> rne x"
proof -
  assume a: "of_int n \<le> x"
  then have "n \<le> \<lfloor>x\<rfloor>" by (simp add: le_floor_iff)
  with rne_cases [of x] show ?thesis by auto
qed

lemma fl_0 [simp]: "fl 0 = 0"
  by (simp add: fl_def)

lemma binade:
  assumes "x \<noteq> 0"
  shows "2 powr of_int \<lfloor>log 2 \<bar>x\<bar>\<rfloor> \<le> \<bar>x\<bar>" "\<bar>x\<bar> < 2 powr (of_int \<lfloor>log 2 \<bar>x\<bar>\<rfloor> + 1)"
proof -
  have p: "2 powr log 2 \<bar>x\<bar> = \<bar>x\<bar>" using assms by simp
  have "2 powr of_int \<lfloor>log 2 \<bar>x\<bar>\<rfloor> \<le> 2 powr log 2 \<bar>x\<bar>"
    by (intro powr_mono) simp_all
  with p show "2 powr of_int \<lfloor>log 2 \<bar>x\<bar>\<rfloor> \<le> \<bar>x\<bar>" by simp
  have "log 2 \<bar>x\<bar> < of_int \<lfloor>log 2 \<bar>x\<bar>\<rfloor> + 1" by linarith
  then have "2 powr log 2 \<bar>x\<bar> < 2 powr (of_int \<lfloor>log 2 \<bar>x\<bar>\<rfloor> + 1)"
    by (intro powr_less_mono) simp_all
  with p show "\<bar>x\<bar> < 2 powr (of_int \<lfloor>log 2 \<bar>x\<bar>\<rfloor> + 1)" by simp
qed

lemma fl_error: "\<bar>fl x - x\<bar> \<le> \<bar>x\<bar> / 2 ^ 53"
proof (cases "x = 0")
  case True
  then show ?thesis by simp
next
  case False
  define e where "e = \<lfloor>log 2 \<bar>x\<bar>\<rfloor>"
  define p :: real where "p = 2 powr of_int (e - 52)"
  have p: "0 < p" by (simp add: p_def)
  have pe: "p * 2 ^ 52 = 2 powr of_int e"
    by (simp add: p_def powr_diff)
  have f: "fl x = of_int (rne (x / p)) * p"
    using False by (simp add: fl_def Let_def p_def e_def)
  have "fl x - x = (of_int (rne (x / p)) - x / p) * p"
    using p by (simp add: f field_simps)
  then have "\<bar>fl x - x\<bar> = \<bar>of_int (rne (x / p)) - x / p\<bar> * p"
    using p by (simp add: abs_mult)
  also have "\<dots> \<le> 1 / 2 * p"
    using rne_error [of "x / p"] p by (intro mult_right_mono) simp_all
  also have "\<dots> = 2 powr of_int e / 2 ^ 53"
    using pe [symmetric] by simp
  also have "\<dots> \<le> \<bar>x\<bar> / 2 ^ 53"
    using binade(1) [OF False] by (simp add: e_def divide_right_mono)
  finally show ?thesis .
qed


lemma floor_log2_eqI:
  assumes "2 powr of_int e \<le> x" and "x < 2 powr (of_int e + 1)"
  shows "\<lfloor>log 2 x\<rfloor> = e"
proof -
  have p: "0 < x" using assms(1) by (rule less_le_trans [rotated]) simp
  have "of_int e \<le> log 2 x" using assms(1) p by (simp add: le_log_iff)
  moreover have "log 2 x < of_int e + 1" using assms(2) p by (simp add: log_less_iff)
  ultimately show ?thesis by linarith
qed

lemma fl_eq_powrI:
  assumes "2 powr of_int (k + 52) \<le> \<bar>x\<bar>" and "\<bar>x\<bar> < 2 powr of_int (k + 53)"
    and "\<bar>x / 2 powr of_int k - of_int m\<bar> < 1 / 2"
  shows "fl x = of_int m * 2 powr of_int k"
proof -
  have "0 < \<bar>x\<bar>" using assms(1) by (rule less_le_trans [rotated]) simp
  then have x: "x \<noteq> 0" by simp
  have "\<lfloor>log 2 \<bar>x\<bar>\<rfloor> = k + 52"
    using assms(1,2) by (intro floor_log2_eqI) (simp_all add: add.commute add.left_commute)
  then show ?thesis
    using x rne_unique [OF assms(3)] by (simp add: fl_def Let_def)
qed

lemma powr_neg_nat: "(2 :: real) powr of_int (- int n) = 1 / 2 ^ n"
  by (simp add: powr_minus powr_realpow inverse_eq_divide)

lemma fl_eqI:
  assumes "2 ^ 52 \<le> \<bar>x\<bar> * 2 ^ n" and "\<bar>x\<bar> * 2 ^ n < 2 ^ 53"
    and "\<bar>x * 2 ^ n - of_int m\<bar> < 1 / 2"
  shows "fl x = of_int m / 2 ^ n"
proof -
  have e: "(2 :: real) powr of_int (- int n + 52) = 2 ^ 52 / 2 ^ n"
    "(2 :: real) powr of_int (- int n + 53) = 2 ^ 53 / 2 ^ n"
    by (simp_all add: powr_diff powr_realpow)
  have "fl x = of_int m * 2 powr of_int (- int n)"
  proof (rule fl_eq_powrI)
    show "2 powr of_int (- int n + 52) \<le> \<bar>x\<bar>"
      unfolding e using assms(1) by (simp add: field_simps)
    show "\<bar>x\<bar> < 2 powr of_int (- int n + 53)"
      unfolding e using assms(2) by (simp add: field_simps)
    show "\<bar>x / 2 powr of_int (- int n) - of_int m\<bar> < 1 / 2"
      unfolding powr_neg_nat using assms(3) by simp
  qed
  then show ?thesis by (simp only: powr_neg_nat) simp
qed

lemma fl_fix_powr:
  assumes "\<bar>m\<bar> < 2 ^ 53"
  shows "fl (of_int m * 2 powr of_int k) = of_int m * 2 powr of_int k"
proof (cases "m = 0")
  case True
  then show ?thesis by simp
next
  case False
  define x :: real where "x = of_int m * 2 powr of_int k"
  have x: "x \<noteq> 0" using False by (simp add: x_def)
  define j where "j = \<lfloor>log 2 \<bar>x\<bar>\<rfloor> - 52"
  have "\<bar>x\<bar> = of_int \<bar>m\<bar> * 2 powr of_int k"
    by (simp add: x_def abs_mult)
  also have "\<dots> < 2 ^ 53 * 2 powr of_int k"
  proof (intro mult_strict_right_mono)
    from assms have "(of_int \<bar>m\<bar> :: real) < of_int (2 ^ 53)" by (simp only: of_int_less_iff)
    then show "(of_int \<bar>m\<bar> :: real) < 2 ^ 53" by simp
  qed simp
  also have "\<dots> = 2 powr (of_int k + 53)"
    by (simp add: powr_add)
  finally have "log 2 \<bar>x\<bar> < of_int k + 53"
    using x by (simp add: log_less_iff)
  then have jk: "j \<le> k" unfolding j_def by linarith
  then obtain d where d: "k = j + int d"
    by (metis zle_iff_zadd)
  have "x / 2 powr of_int j = of_int m * 2 powr of_int (int d)"
    by (simp add: x_def d powr_add)
  also have "\<dots> = of_int (m * 2 ^ d)"
    by (simp add: powr_realpow)
  finally have q: "x / 2 powr of_int j = of_int (m * 2 ^ d)" .
  have "fl x = of_int (rne (x / 2 powr of_int j)) * 2 powr of_int j"
    using x by (simp add: fl_def Let_def j_def)
  also have "\<dots> = of_int (m * 2 ^ d) * 2 powr of_int j"
    unfolding q rne_of_int ..
  also have "\<dots> = x"
    by (simp add: x_def d powr_add powr_realpow)
  finally show ?thesis unfolding x_def .
qed

lemma fl_of_int: "\<bar>m\<bar> < 2 ^ 53 \<Longrightarrow> fl (of_int m) = of_int m"
  using fl_fix_powr [of m 0] by simp

lemma fl_numeral: "numeral w < (2 :: int) ^ 53 \<Longrightarrow> fl (numeral w) = numeral w"
  using fl_of_int [of "numeral w"] by simp

lemma fl_neg_numeral: "numeral w < (2 :: int) ^ 53 \<Longrightarrow> fl (- numeral w) = - numeral w"
  using fl_of_int [of "- numeral w"] by simp

lemma fl_1 [simp]: "fl 1 = 1"
  using fl_of_int [of 1] by simp

lemma fl_dyadic: "\<bar>m\<bar> < 2 ^ 53 \<Longrightarrow> fl (of_int m / 2 ^ n) = of_int m / 2 ^ n"
  using fl_fix_powr [of m "- int n"] by (simp only: powr_neg_nat) simp

lemma fl_bounds:
  assumes "0 \<le> x"
  shows "x * (1 - 1 / 2 ^ 53) \<le> fl x" and "fl x \<le> x * (1 + 1 / 2 ^ 53)"
proof -
  from fl_error [of x] assms have e: "\<bar>fl x - x\<bar> \<le> x / 2 ^ 53" by simp
  from abs_le_D2 [OF e] show "x * (1 - 1 / 2 ^ 53) \<le> fl x"
    by (simp add: algebra_simps)
  from abs_le_D1 [OF e] show "fl x \<le> x * (1 + 1 / 2 ^ 53)"
    by (simp add: algebra_simps)
qed

lemma fl_nonneg: "0 \<le> x \<Longrightarrow> 0 \<le> fl x"
proof -
  assume x: "0 \<le> x"
  then have "0 \<le> x * (1 - 1 / 2 ^ 53)" by simp
  with fl_bounds(1) [OF x] show ?thesis by simp
qed

lemma fl_abs_upper: "\<bar>fl x\<bar> \<le> \<bar>x\<bar> * (1 + 1 / 2 ^ 53)"
proof -
  have "\<bar>fl x\<bar> \<le> \<bar>fl x - x\<bar> + \<bar>x\<bar>" by simp
  also have "\<dots> \<le> \<bar>x\<bar> / 2 ^ 53 + \<bar>x\<bar>" using fl_error [of x] by simp
  finally show ?thesis by (simp add: algebra_simps)
qed

lemma fl_pos: "0 < x \<Longrightarrow> 0 < fl x"
proof -
  assume x: "0 < x"
  then have "0 < x * (1 - 1 / 2 ^ 53)" by simp
  with fl_bounds(1) [of x] x show ?thesis by simp
qed

lemma fl_nonpos: "x \<le> 0 \<Longrightarrow> fl x \<le> 0"
proof -
  assume x: "x \<le> 0"
  with fl_error [of x] have "\<bar>fl x - x\<bar> \<le> - x / 2 ^ 53" by simp
  from abs_le_D1 [OF this] have "fl x \<le> x * (1 - 1 / 2 ^ 53)" by (simp add: algebra_simps)
  also have "\<dots> \<le> 0" using x by (simp add: mult_le_0_iff)
  finally show ?thesis .
qed

lemma fl_le_double:
  assumes "2 ^ 52 \<le> m" and "m < 2 ^ 53" and "x \<le> of_int m * 2 powr of_int k"
  shows "fl x \<le> of_int m * 2 powr of_int k"
proof (cases "x \<le> 0")
  case True
  from assms(1) have "0 \<le> m" by simp
  then have "0 \<le> (of_int m :: real) * 2 powr of_int k" by simp
  with fl_nonpos [OF True] show ?thesis by simp
next
  case False
  then have xp: "0 < x" and x0: "x \<noteq> 0" by simp_all
  define E where "E = \<lfloor>log 2 \<bar>x\<bar>\<rfloor>"
  define j where "j = E - 52"
  have m: "(2 :: real) ^ 52 \<le> of_int m" "of_int m < (2 :: real) ^ 53"
  proof -
    from assms(1) have "of_int (2 ^ 52) \<le> (of_int m :: real)" by (simp only: of_int_le_iff)
    then show "(2 :: real) ^ 52 \<le> of_int m" by simp
    from assms(2) have "(of_int m :: real) < of_int (2 ^ 53)" by (simp only: of_int_less_iff)
    then show "of_int m < (2 :: real) ^ 53" by simp
  qed
  have b: "2 powr of_int E \<le> x" "x < 2 powr (of_int E + 1)"
    using binade [OF x0] xp by (simp_all add: E_def)
  have "(2 :: real) powr of_int E \<le> of_int m * 2 powr of_int k"
    using b(1) assms(3) by simp
  also have "\<dots> < 2 ^ 53 * 2 powr of_int k"
    using m(2) by (intro mult_strict_right_mono) simp_all
  also have "\<dots> = 2 powr (of_int k + 53)"
    by (simp add: powr_add)
  finally have "of_int E < (of_int k + 53 :: real)"
    by simp
  then have jk: "j \<le> k" unfolding j_def by linarith
  have f: "fl x = of_int (rne (x / 2 powr of_int j)) * 2 powr of_int j"
    using x0 by (simp add: fl_def Let_def j_def E_def)
  show ?thesis
  proof (cases "j = k")
    case True
    have "x / 2 powr of_int k \<le> of_int m"
      using assms(3) by (simp add: field_simps)
    then have "rne (x / 2 powr of_int k) \<le> m" by (rule rne_le)
    then have "(of_int (rne (x / 2 powr of_int k)) :: real) \<le> of_int m" by (simp only: of_int_le_iff)
    then show ?thesis
      unfolding f True by (intro mult_right_mono) simp_all
  next
    case False
    with jk have lt: "j + 1 \<le> k" by simp
    have "x / 2 powr of_int j < 2 powr (of_int E + 1) / 2 powr of_int j"
      using b(2) by (intro divide_strict_right_mono) simp_all
    also have "\<dots> = 2 powr 53"
      by (simp add: j_def powr_diff [symmetric])
    finally have "x / 2 powr of_int j \<le> of_int (2 ^ 53)"
      by simp
    then have "rne (x / 2 powr of_int j) \<le> 2 ^ 53" by (rule rne_le)
    then have "(of_int (rne (x / 2 powr of_int j)) :: real) \<le> of_int (2 ^ 53)"
      by (simp only: of_int_le_iff)
    then have "fl x \<le> 2 ^ 53 * 2 powr of_int j"
      unfolding f by (intro mult_right_mono) simp_all
    also have "\<dots> = 2 ^ 52 * 2 powr (of_int j + 1)"
      by (simp add: powr_add)
    also have "\<dots> \<le> 2 ^ 52 * 2 powr of_int k"
    proof -
      from lt have "(of_int j + 1 :: real) \<le> of_int k" by linarith
      then show ?thesis by (intro mult_left_mono powr_mono) simp_all
    qed
    also have "\<dots> \<le> of_int m * 2 powr of_int k"
      using m(1) by (intro mult_right_mono) simp_all
    finally show ?thesis .
  qed
qed

lemma fl_ge_double:
  assumes "2 ^ 52 \<le> m" and "m < 2 ^ 53" and "of_int m * 2 powr of_int k \<le> x"
  shows "of_int m * 2 powr of_int k \<le> fl x"
proof -
  have m: "(2 :: real) ^ 52 \<le> of_int m" "of_int m < (2 :: real) ^ 53"
  proof -
    from assms(1) have "of_int (2 ^ 52) \<le> (of_int m :: real)" by (simp only: of_int_le_iff)
    then show "(2 :: real) ^ 52 \<le> of_int m" by simp
    from assms(2) have "(of_int m :: real) < of_int (2 ^ 53)" by (simp only: of_int_less_iff)
    then show "of_int m < (2 :: real) ^ 53" by simp
  qed
  have "(0 :: real) < of_int m * 2 powr of_int k" using m(1) by (intro mult_pos_pos) simp_all
  with assms(3) have xp: "0 < x" and x0: "x \<noteq> 0" by simp_all
  define E where "E = \<lfloor>log 2 \<bar>x\<bar>\<rfloor>"
  define j where "j = E - 52"
  have b: "2 powr of_int E \<le> x" "x < 2 powr (of_int E + 1)"
    using binade [OF x0] xp by (simp_all add: E_def)
  have "(2 :: real) powr (of_int k + 52) = 2 ^ 52 * 2 powr of_int k"
    by (simp add: powr_add)
  also have "\<dots> \<le> of_int m * 2 powr of_int k"
    using m(1) by (intro mult_right_mono) simp_all
  also have "\<dots> \<le> x" by (rule assms(3))
  also have "\<dots> < 2 powr (of_int E + 1)" by (rule b(2))
  finally have "(of_int k + 52 :: real) < of_int E + 1"
    by simp
  then have jk: "k \<le> j" unfolding j_def by linarith
  have f: "fl x = of_int (rne (x / 2 powr of_int j)) * 2 powr of_int j"
    using x0 by (simp add: fl_def Let_def j_def E_def)
  show ?thesis
  proof (cases "j = k")
    case True
    have "of_int m \<le> x / 2 powr of_int k"
      using assms(3) by (simp add: field_simps)
    then have "m \<le> rne (x / 2 powr of_int k)" by (rule rne_ge)
    then have "(of_int m :: real) \<le> of_int (rne (x / 2 powr of_int k))" by (simp only: of_int_le_iff)
    then show ?thesis
      unfolding f True by (intro mult_right_mono) simp_all
  next
    case False
    with jk have lt: "k + 1 \<le> j" by simp
    have "(2 :: real) powr 52 = 2 powr of_int E / 2 powr of_int j"
      by (simp add: j_def powr_diff [symmetric])
    also have "\<dots> \<le> x / 2 powr of_int j"
      using b(1) by (intro divide_right_mono) simp_all
    finally have "of_int (2 ^ 52) \<le> x / 2 powr of_int j"
      by simp
    then have "2 ^ 52 \<le> rne (x / 2 powr of_int j)" by (rule rne_ge)
    then have "(of_int (2 ^ 52) :: real) \<le> of_int (rne (x / 2 powr of_int j))"
      by (simp only: of_int_le_iff)
    then have g: "2 ^ 52 * 2 powr of_int j \<le> fl x"
      unfolding f by (intro mult_right_mono) simp_all
    have "(of_int m :: real) * 2 powr of_int k \<le> 2 ^ 53 * 2 powr of_int k"
      using m(2) by (intro mult_right_mono) simp_all
    also have "\<dots> = 2 ^ 52 * 2 powr (of_int k + 1)"
      by (simp add: powr_add)
    also have "\<dots> \<le> 2 ^ 52 * 2 powr of_int j"
    proof -
      from lt have "(of_int k + 1 :: real) \<le> of_int j" by linarith
      then show ?thesis by (intro mult_left_mono powr_mono) simp_all
    qed
    also note g
    finally show ?thesis .
  qed
qed

lemma fl_le_dyadic:
  "2 ^ 52 \<le> m \<Longrightarrow> m < 2 ^ 53 \<Longrightarrow> x \<le> of_int m / 2 ^ n \<Longrightarrow> fl x \<le> of_int m / 2 ^ n"
  using fl_le_double [of m x "- int n"] by (simp only: powr_neg_nat) simp

lemma fl_ge_dyadic:
  "2 ^ 52 \<le> m \<Longrightarrow> m < 2 ^ 53 \<Longrightarrow> of_int m / 2 ^ n \<le> x \<Longrightarrow> of_int m / 2 ^ n \<le> fl x"
  using fl_ge_double [of m "- int n" x] by (simp only: powr_neg_nat) simp

lemma fl_sqrt_eqI:
  assumes "2 ^ 52 < m" and "m < 2 ^ 53"
    and "(of_int m - 1 / 2) ^ 2 < s * 4 ^ n" and "s * 4 ^ n < (of_int m + 1 / 2) ^ 2"
  shows "fl (sqrt s) = of_int m / 2 ^ n"
proof -
  define t where "t = sqrt s * 2 ^ n"
  have m: "(2 :: real) ^ 52 + 1 \<le> of_int m" "of_int m \<le> (2 :: real) ^ 53 - 1"
  proof -
    from assms(1) have "2 ^ 52 + 1 \<le> m" by simp
    then have "of_int (2 ^ 52 + 1) \<le> (of_int m :: real)" by (simp only: of_int_le_iff)
    then show "(2 :: real) ^ 52 + 1 \<le> of_int m" by simp
    from assms(2) have "m \<le> 2 ^ 53 - 1" by simp
    then have "(of_int m :: real) \<le> of_int (2 ^ 53 - 1)" by (simp only: of_int_le_iff)
    then show "of_int m \<le> (2 :: real) ^ 53 - 1" by simp
  qed
  have "sqrt (4 ^ n) = (2 :: real) ^ n"
    by (simp add: real_sqrt_power)
  then have t: "t = sqrt (s * 4 ^ n)"
    by (simp add: t_def real_sqrt_mult)
  have lo: "of_int m - 1 / 2 < t"
    unfolding t using assms(3) by (rule real_less_rsqrt)
  have hi: "t < of_int m + 1 / 2"
    unfolding t using assms(4) m(1) by (intro real_less_lsqrt) simp_all
  have tp: "0 < t" using lo m(1) by simp
  then have a: "\<bar>sqrt s\<bar> * 2 ^ n = t"
    by (simp add: t_def zero_less_mult_iff abs_mult [symmetric])
  show ?thesis
  proof (rule fl_eqI)
    show "2 ^ 52 \<le> \<bar>sqrt s\<bar> * 2 ^ n" unfolding a using lo m(1) by simp
    show "\<bar>sqrt s\<bar> * 2 ^ n < 2 ^ 53" unfolding a using hi m(2) by simp
    show "\<bar>sqrt s * 2 ^ n - of_int m\<bar> < 1 / 2"
      unfolding t_def [symmetric] using lo hi by (simp only: abs_less_iff) linarith
  qed
qed

subsection \<open>Physics\<close>

lemma edges_fields [simp]:
  "vel (edges a) = vel a" "acc (edges a) = acc a" "dna (edges a) = dna a"
  "energy (edges a) = energy a" "active (edges a) = active a"
  "max_energy (edges a) = max_energy a"
  by (simp_all add: edges_def Let_def split: prod.splits)

lemma edges_pos:
  "pos (edges a) =
     ((if fst (pos a) > WORLD_W then 0 else if fst (pos a) < 0 then WORLD_W else fst (pos a)),
      (if snd (pos a) > WORLD_H then 0 else if snd (pos a) < 0 then WORLD_H else snd (pos a)))"
  by (cases "pos a") (auto simp: edges_def Let_def WORLD_W_def WORLD_H_def)

lemma edges_in_world: "in_world (pos (edges a))"
  by (simp add: edges_pos in_world_def WORLD_W_def WORLD_H_def)

lemma update_physics_Inr:
  "update_physics a = Inr a' \<Longrightarrow>
     \<exists>v'. a' = edges (a\<lparr>vel := v', pos := vadd (pos a) v', acc := vmul (acc a) 0\<rparr>)"
  by (auto simp: update_physics_def Let_def ebind_Inr_iff)

lemma update_physics_in_world: "update_physics a = Inr a' \<Longrightarrow> in_world (pos a')"
  by (auto dest!: update_physics_Inr simp: edges_in_world)

text \<open>
  C3 (as amended). After \<^verbatim>\<open>update_physics\<close> the position lies in the closed rectangle
  \<open>0 \<le> x \<le> WORLD_W\<close>, \<open>0 \<le> y \<le> WORLD_H\<close>. On each axis, a coordinate that went above the
  upper edge is set to zero, one that went below zero is set to the upper edge
  (\<open>WORLD_W\<close> or \<open>WORLD_H\<close>), and one in between (the edges included) is kept.
\<close>

theorem update_physics_wrap:
  assumes "update_physics a = Inr a'"
  shows "0 \<le> fst (pos a') \<and> fst (pos a') \<le> WORLD_W \<and> 0 \<le> snd (pos a') \<and> snd (pos a') \<le> WORLD_H
    \<and> pos a' =
       (let q = vadd (pos a) (vel a') in
        ((if fst q > WORLD_W then 0 else if fst q < 0 then WORLD_W else fst q),
         (if snd q > WORLD_H then 0 else if snd q < 0 then WORLD_H else snd q)))"
proof -
  from assms obtain v' where
    a': "a' = edges (a\<lparr>vel := v', pos := vadd (pos a) v', acc := vmul (acc a) 0\<rparr>)"
    by (auto dest: update_physics_Inr)
  have "in_world (pos a')"
    using assms by (rule update_physics_in_world)
  moreover have "vel a' = v'"
    by (simp add: a')
  ultimately show ?thesis
    by (simp add: in_world_def a' edges_pos Let_def)
qed

theorem update_physics_wrap_witness:
  "update_physics (prey_at (1999, 5) (3, - 4) 150 PREY_DNA)
     = Inr (prey_at (0, 11 / 5) (21 / 10, - (28 / 10)) 150 PREY_DNA)
   \<and> pos (prey_at (0, 11 / 5) (21 / 10, - (28 / 10)) 150 PREY_DNA) = (0, 11 / 5)"
proof -
  have s: "sqrt 25 = 5"
    by (rule sqrt_eqI) simp_all
  have u: "update_physics (prey_at (1999, 5) (3, - 4) 150 PREY_DNA)
     = Inr (prey_at (0, 11 / 5) (21 / 10, - (28 / 10)) 150 PREY_DNA)"
    by (simp add: update_physics_def prey_at_def PREY_DNA_def dna_get_def vlength_def s
        scale_to_length_def VECTOR_EPSILON_def edges_def WORLD_W_def WORLD_H_def Let_def)
  from update_physics_wrap [OF u] show ?thesis
    using u by (simp add: prey_at_def)
qed

theorem update_physics_wrap_counterexample:
  "update_physics (prey_at (0, 7) (- 1, 0) 150 PREY_DNA)
     = Inr (prey_at (2000, 7) (- 1, 0) 150 PREY_DNA)
   \<and> \<not> fst (pos (prey_at (2000, 7) (- 1, 0) 150 PREY_DNA)) < WORLD_W
   \<and> fst (pos (prey_at (2000, 7) (- 1, 0) 150 PREY_DNA)) \<noteq> 0"
  by (simp add: update_physics_def prey_at_def PREY_DNA_def dna_get_def vlength_def
      edges_def WORLD_W_def WORLD_H_def Let_def)

text \<open>
  In exact arithmetic the clamp is exact: when \<^verbatim>\<open>update_physics\<close> returns, the length of
  the velocity is at most \<open>speed\<close>.
\<close>

lemma update_physics_speed_exact:
  assumes "dna_get (dna a) ''speed'' = Inr s" and "0 \<le> s"
  shows "(VECTOR_EPSILON \<le> s \<longrightarrow> (\<exists>a'. update_physics a = Inr a'))
    \<and> (\<forall>a'. update_physics a = Inr a' \<longrightarrow> vlength (vel a') \<le> s \<and> acc a' = (0, 0))"
proof (intro conjI impI allI)
  assume "VECTOR_EPSILON \<le> s"
  then show "\<exists>a'. update_physics a = Inr a'"
    using assms by (simp add: update_physics_def Let_def scale_to_length_def)
next
  fix a' assume "update_physics a = Inr a'"
  then show "vlength (vel a') \<le> s"
    using assms
    by (auto simp: update_physics_def Let_def ebind_Inr_iff dest: scale_to_length_Inr
        split: if_splits)
next
  fix a' assume "update_physics a = Inr a'"
  then show "acc a' = (0, 0)"
    by (cases "acc a") (auto dest!: update_physics_Inr)
qed

text \<open>
  In double precision the computed length of a vector is within two roundings of its
  length, and the clamp leaves a vector that can be longer than the speed by the roundings
  of the quotient and of the two products.
\<close>

lemma vlength_fl_lower: "vlength v * (1 - 1 / 2 ^ 53) ^ 2 \<le> vlength_fl v"
proof -
  obtain p q where v: "v = (p, q)" by (cases v)
  define u :: real where "u = 1 / 2 ^ 53"
  have u: "0 \<le> 1 - u" by (simp add: u_def)
  have 1: "p * p * (1 - u) \<le> fl (p * p)" "q * q * (1 - u) \<le> fl (q * q)"
    unfolding u_def by (rule fl_bounds(1), simp)+
  have n: "0 \<le> fl (p * p) + fl (q * q)"
    by (intro add_nonneg_nonneg fl_nonneg) simp_all
  have "(p * p + q * q) * (1 - u) ^ 2 = (p * p * (1 - u) + q * q * (1 - u)) * (1 - u)"
    by (simp add: algebra_simps power2_eq_square)
  also have "\<dots> \<le> (fl (p * p) + fl (q * q)) * (1 - u)"
    using 1 u by (intro mult_right_mono add_mono)
  also have "\<dots> \<le> fl (fl (p * p) + fl (q * q))"
    unfolding u_def by (rule fl_bounds(1) [OF n])
  finally have "sqrt ((p * p + q * q) * (1 - u) ^ 2) \<le> sqrt (fl (fl (p * p) + fl (q * q)))"
    by simp
  then have 2: "sqrt (p * p + q * q) * (1 - u) \<le> sqrt (fl (fl (p * p) + fl (q * q)))"
    using u by (simp add: real_sqrt_mult)
  have "sqrt (p * p + q * q) * (1 - u) ^ 2 = sqrt (p * p + q * q) * (1 - u) * (1 - u)"
    by (simp add: power2_eq_square)
  also have "\<dots> \<le> sqrt (fl (fl (p * p) + fl (q * q))) * (1 - u)"
    using 2 u by (rule mult_right_mono)
  also have "\<dots> \<le> fl (sqrt (fl (fl (p * p) + fl (q * q))))"
    unfolding u_def by (rule fl_bounds(1)) (simp add: fl_nonneg n)
  finally show ?thesis
    by (simp add: v vlength_def vlength_fl_def u_def)
qed

lemma vlength_vmul_fl_upper:
  assumes "0 \<le> k"
  shows "vlength (vmul_fl v k) \<le> vlength v * (k * (1 + 1 / 2 ^ 53))"
proof -
  obtain p q where v: "v = (p, q)" by (cases v)
  define c :: real where "c = k * (1 + 1 / 2 ^ 53)"
  have c: "0 \<le> c" using assms by (simp add: c_def)
  have b: "\<bar>fl (x * k)\<bar> \<le> \<bar>x\<bar> * c" for x
    using fl_abs_upper [of "x * k"] assms by (simp add: c_def abs_mult algebra_simps)
  have sq: "fl (x * k) * fl (x * k) \<le> x * x * (c * c)" for x
  proof -
    have "fl (x * k) * fl (x * k) = \<bar>fl (x * k)\<bar> * \<bar>fl (x * k)\<bar>" by simp
    also have "\<dots> \<le> (\<bar>x\<bar> * c) * (\<bar>x\<bar> * c)"
      using b [of x] by (intro mult_mono) simp_all
    also have "\<dots> = x * x * (c * c)" by (simp add: algebra_simps)
    finally show ?thesis .
  qed
  have "fl (p * k) * fl (p * k) + fl (q * k) * fl (q * k) \<le> (p * p + q * q) * (c * c)"
    using sq [of p] sq [of q] by (simp add: algebra_simps)
  then have "sqrt (fl (p * k) * fl (p * k) + fl (q * k) * fl (q * k))
      \<le> sqrt ((p * p + q * q) * (c * c))"
    by simp
  also have "\<dots> = sqrt (p * p + q * q) * c"
    using c by (simp add: real_sqrt_mult)
  finally show ?thesis
    by (simp add: v vlength_def c_def)
qed

lemma vlength_fl_upper: "vlength_fl v \<le> vlength v * (1 + 1 / 2 ^ 53) ^ 2"
proof -
  obtain p q where v: "v = (p, q)" by (cases v)
  define u :: real where "u = 1 / 2 ^ 53"
  have u: "0 \<le> 1 + u" by (simp add: u_def)
  have 1: "fl (p * p) \<le> p * p * (1 + u)" "fl (q * q) \<le> q * q * (1 + u)"
    unfolding u_def by (rule fl_bounds(2), simp)+
  have n: "0 \<le> fl (p * p) + fl (q * q)"
    by (intro add_nonneg_nonneg fl_nonneg) simp_all
  have "fl (fl (p * p) + fl (q * q)) \<le> (fl (p * p) + fl (q * q)) * (1 + u)"
    unfolding u_def by (rule fl_bounds(2) [OF n])
  also have "\<dots> \<le> (p * p * (1 + u) + q * q * (1 + u)) * (1 + u)"
    using 1 u by (intro mult_right_mono add_mono)
  also have "\<dots> = (p * p + q * q) * (1 + u) ^ 2"
    by (simp add: algebra_simps power2_eq_square)
  finally have "sqrt (fl (fl (p * p) + fl (q * q))) \<le> sqrt ((p * p + q * q) * (1 + u) ^ 2)"
    by simp
  then have 2: "sqrt (fl (fl (p * p) + fl (q * q))) \<le> sqrt (p * p + q * q) * (1 + u)"
    using u by (simp add: real_sqrt_mult)
  have "fl (sqrt (fl (fl (p * p) + fl (q * q)))) \<le> sqrt (fl (fl (p * p) + fl (q * q))) * (1 + u)"
    unfolding u_def by (rule fl_bounds(2)) (simp add: fl_nonneg n)
  also have "\<dots> \<le> sqrt (p * p + q * q) * (1 + u) * (1 + u)"
    using 2 u by (rule mult_right_mono)
  also have "\<dots> = sqrt (p * p + q * q) * (1 + u) ^ 2"
    by (simp add: power2_eq_square)
  finally show ?thesis
    by (simp add: v vlength_def vlength_fl_def u_def)
qed

lemma update_physics_fl_speed:
  assumes "dna_get (dna a) ''speed'' = Inr s" and "0 \<le> s" and "update_physics_fl a = Inr a'"
  shows "vlength (vel a') \<le> s * (1 + 1 / 2 ^ 50)" and "acc a' = (0, 0)"
proof -
  define v where "v = vadd_fl (vel a) (acc a)"
  define u :: real where "u = 1 / 2 ^ 53"
  have u: "0 < 1 - u" "0 \<le> 1 + u" by (simp_all add: u_def)
  from assms(1,3) obtain v' where
    c: "(if vlength_fl v > s then scale_to_length_fl v s else Inr v) = Inr v'" and
    a': "a' = edges (a\<lparr>vel := v', pos := vadd_fl (pos a) v', acc := vmul_fl (acc a) 0\<rparr>)"
    unfolding v_def by (auto simp: update_physics_fl_def Let_def ebind_Inr_iff)
  show "acc a' = (0, 0)"
    by (cases "acc a") (simp add: a')
  have low: "vlength v * (1 - u) ^ 2 \<le> vlength_fl v"
    unfolding u_def by (rule vlength_fl_lower)
  have num: "(1 + u) * (1 + u) \<le> (1 + 1 / 2 ^ 50) * (1 - u) ^ 2"
    by (simp add: u_def power2_eq_square)
  have "vlength v' * (1 - u) ^ 2 \<le> s * ((1 + u) * (1 + u))"
  proof (cases "vlength_fl v > s")
    case False
    with c have "v' = v" by simp
    with low False have "vlength v' * (1 - u) ^ 2 \<le> s" by simp
    also have "s \<le> s * ((1 + u) * (1 + u))"
      using assms(2) by (simp add: u_def mult_le_cancel_left1)
    finally show ?thesis .
  next
    case True
    define f where "f = fl (s / vlength_fl v)"
    from True assms(2) have lp: "0 < vlength_fl v" by simp
    from True c have v': "v' = vmul_fl v f"
      by (auto simp: scale_to_length_fl_def Let_def f_def split: if_splits)
    have q: "0 \<le> s / vlength_fl v" using assms(2) lp by simp
    have f: "0 \<le> f" "f \<le> s / vlength_fl v * (1 + u)"
      unfolding f_def u_def using q by (rule fl_nonneg, rule fl_bounds(2))
    have "vlength v' \<le> vlength v * (f * (1 + u))"
      unfolding v' u_def using f(1) by (rule vlength_vmul_fl_upper)
    also have "\<dots> \<le> vlength v * (s / vlength_fl v * (1 + u) * (1 + u))"
      using f(2) u(2) vlength_nonneg [of v] by (intro mult_left_mono mult_right_mono) simp_all
    finally have "vlength v' * (1 - u) ^ 2
        \<le> vlength v * (s / vlength_fl v * (1 + u) * (1 + u)) * (1 - u) ^ 2"
      by (intro mult_right_mono) simp_all
    also have "\<dots> = (vlength v * (1 - u) ^ 2) * (s / vlength_fl v * ((1 + u) * (1 + u)))"
      by (simp only: mult_ac)
    also have "\<dots> \<le> vlength_fl v * (s / vlength_fl v * ((1 + u) * (1 + u)))"
    proof (rule mult_right_mono [OF low])
      show "0 \<le> s / vlength_fl v * ((1 + u) * (1 + u))"
        using q u(2) by (intro mult_nonneg_nonneg)
    qed
    also have "\<dots> = s * ((1 + u) * (1 + u))"
      using lp by simp
    finally show ?thesis .
  qed
  also have "\<dots> \<le> s * ((1 + 1 / 2 ^ 50) * (1 - u) ^ 2)"
    using num assms(2) by (rule mult_left_mono)
  finally have "vlength v' * (1 - u) ^ 2 \<le> s * (1 + 1 / 2 ^ 50) * (1 - u) ^ 2"
    by (simp add: algebra_simps)
  then have "vlength v' \<le> s * (1 + 1 / 2 ^ 50)"
    using u(1) by simp
  then show "vlength (vel a') \<le> s * (1 + 1 / 2 ^ 50)"
    by (simp add: a')
qed

lemma update_physics_fl_total:
  assumes "dna_get (dna a) ''speed'' = Inr s" and "fl VECTOR_EPSILON \<le> s"
  shows "\<exists>a'. update_physics_fl a = Inr a'"
  using assms by (simp add: update_physics_fl_def Let_def scale_to_length_fl_def)

text \<open>The roundings of example K; the arguments are in lowest terms.\<close>

lemma fl_15_2: "fl (15 / 2) = 15 / 2"
  using fl_eqI [of "15 / 2" 50 "8444249301319680"] by simp

lemma fl_225_4: "fl (225 / 4) = 225 / 4"
  using fl_eqI [of "225 / 4" 47 "7916483719987200"] by simp

lemma fl_625_4: "fl (625 / 4) = 625 / 4"
  using fl_eqI [of "625 / 4" 45 "5497558138880000"] by simp

lemma fl_25_2: "fl (25 / 2) = 25 / 2"
  using fl_eqI [of "25 / 2" 49 "7036874417766400"] by simp

lemma fl_7_25: "fl (7 / 25) = 1261007895663739 / 4503599627370496"
  using fl_eqI [of "7 / 25" 54 "5044031582654956"] by simp

lemma fl_K_x: "fl (6305039478318695 / 2251799813685248) = 6305039478318695 / 2251799813685248"
  using fl_eqI [of "6305039478318695 / 2251799813685248" 51 "6305039478318695"] by simp

lemma fl_K_y: "fl (18915118434956085 / 9007199254740992) = 4728779608739021 / 2251799813685248"
  using fl_eqI [of "18915118434956085 / 9007199254740992" 51 "4728779608739021"] by simp

lemma fl_K_y2: "fl (4728779608739021 / 2251799813685248) = 4728779608739021 / 2251799813685248"
  using fl_eqI [of "4728779608739021 / 2251799813685248" 51 "4728779608739021"] by simp


lemma sqrt_625_4: "sqrt (625 / 4) = 25 / 2"
  by (rule sqrt_eqI) simp_all

lemma fl_epsilon: "fl VECTOR_EPSILON \<le> 1 / 500000"
  using fl_bounds(2) [of VECTOR_EPSILON] by (simp add: VECTOR_EPSILON_def)

lemma update_physics_fl_K: "update_physics_fl agent_K = Inr agent_K'"
proof -
  have e: "\<not> 25 < fl VECTOR_EPSILON * 2"
    using fl_epsilon by linarith
  show ?thesis
    by (simp add: update_physics_fl_def agent_K_def agent_K'_def prey_at_def PREY_DNA_def
        dna_get_def Let_def vlength_fl_def scale_to_length_fl_def edges_def WORLD_W_def
        WORLD_H_def fl_numeral fl_15_2 fl_225_4 fl_625_4 fl_25_2 fl_7_25 fl_K_x fl_K_y fl_K_y2
        sqrt_625_4 e)
qed

lemma K_too_fast: "7 / 2 < vlength (vel agent_K')"
proof -
  have "(7 / 2) ^ 2 < length_squared (vel agent_K')"
    by (simp add: agent_K'_def prey_at_def power2_eq_square)
  then show ?thesis
    unfolding vlength_def by (rule real_less_rsqrt)
qed

lemma fl_K_xx: "fl (39753522823157281596983986503025 / 5070602400912917605986812821504) = 4413527634823087 / 562949953421312"
  using fl_eqI [of "39753522823157281596983986503025 / 5070602400912917605986812821504" 50 "8827055269646174"] by simp

lemma fl_K_yy: "fl (22361356588025968533913688038441 / 5070602400912917605986812821504) = 1241304647293993 / 281474976710656"
  using fl_eqI [of "22361356588025968533913688038441 / 5070602400912917605986812821504" 50 "4965218589175972"] by simp

lemma fl_K_sum: "fl (6896136929411073 / 562949953421312) = 6896136929411073 / 562949953421312"
  using fl_eqI [of "6896136929411073 / 562949953421312" 49 "6896136929411073"] by simp

lemma fl_K_sqrt: "fl (sqrt (6896136929411073 / 562949953421312)) = 7881299347898369 / 2251799813685248"
  using fl_sqrt_eqI [of "7881299347898369" "6896136929411073 / 562949953421312" 51] by (simp add: power2_eq_square)

lemma vlength_fl_K: "vlength_fl (vel agent_K') = 7881299347898369 / 2 ^ 51"
  by (simp add: vlength_fl_def agent_K'_def prey_at_def fl_K_xx fl_K_yy fl_K_sum fl_K_sqrt)

text \<open>
  C7 (as amended). The arithmetic is that of doubles. Let the genome's \<open>speed\<close> be at least
  the epsilon \<^verbatim>\<open>1e-6\<close> of the vector library, and the components of the velocity and of
  the accumulated acceleration at most \<open>2\<^sup>5\<^sup>0\<^sup>0\<close> in magnitude, so that no operation
  overflows and the quotient of the clamp is not subnormal (a square or a product that is
  subnormal on the machine is rounded there with an absolute error below \<open>2\<^sup>-\<^sup>1\<^sup>0\<^sup>7\<^sup>4\<close>,
  which is nothing against a speed of at least \<^verbatim>\<open>1e-6\<close>). Then \<^verbatim>\<open>update_physics\<close>
  returns; the length of the new velocity is at most \<open>speed * (1 + 2\<^sup>-\<^sup>5\<^sup>0)\<close>, and its
  length as \<^verbatim>\<open>length()\<close> computes it at most \<open>speed * (1 + 2\<^sup>-\<^sup>4\<^sup>9)\<close>; the acceleration
  accumulator is the zero vector. The bound is not \<open>speed\<close> itself: in example K the
  velocity after the clamp to \<open>3.5\<close> is longer than \<open>3.5\<close>, and \<^verbatim>\<open>length()\<close> returns
  \<open>3.5000000000000004\<close>.
\<close>

theorem update_physics_speed_limit:
  assumes "dna_get (dna a) ''speed'' = Inr s" and "fl VECTOR_EPSILON \<le> s"
    and "\<bar>fst (vel a)\<bar> \<le> 2 ^ 500" and "\<bar>snd (vel a)\<bar> \<le> 2 ^ 500"
    and "\<bar>fst (acc a)\<bar> \<le> 2 ^ 500" and "\<bar>snd (acc a)\<bar> \<le> 2 ^ 500"
  shows "\<exists>a'. update_physics_fl a = Inr a'
     \<and> vlength (vel a') \<le> s * (1 + 1 / 2 ^ 50)
     \<and> vlength_fl (vel a') \<le> s * (1 + 1 / 2 ^ 49)
     \<and> acc a' = (0, 0)"
proof -
  have "0 \<le> fl VECTOR_EPSILON"
    by (rule fl_nonneg) (simp add: VECTOR_EPSILON_def)
  with assms(2) have s: "0 \<le> s" by simp
  from update_physics_fl_total [OF assms(1,2)] obtain a' where a': "update_physics_fl a = Inr a'" ..
  note b = update_physics_fl_speed [OF assms(1) s a']
  have "vlength_fl (vel a') \<le> vlength (vel a') * (1 + 1 / 2 ^ 53) ^ 2"
    by (rule vlength_fl_upper)
  also have "\<dots> \<le> s * (1 + 1 / 2 ^ 50) * (1 + 1 / 2 ^ 53) ^ 2"
    using b(1) by (intro mult_right_mono) simp_all
  also have "\<dots> = s * ((1 + 1 / 2 ^ 50) * (1 + 1 / 2 ^ 53) ^ 2)"
    by simp
  also have "\<dots> \<le> s * (1 + 1 / 2 ^ 49)"
    using s by (intro mult_left_mono) (simp_all add: power2_eq_square)
  finally show ?thesis
    using a' b by blast
qed

theorem update_physics_speed_limit_witness:
  "dna_get (dna agent_K) ''speed'' = Inr (7 / 2)
   \<and> vel agent_K = (4, 3) \<and> acc agent_K = (6, 9 / 2)
   \<and> update_physics_fl agent_K = Inr agent_K'
   \<and> vlength (vel agent_K') \<le> 7 / 2 * (1 + 1 / 2 ^ 50)
   \<and> vlength_fl (vel agent_K') \<le> 7 / 2 * (1 + 1 / 2 ^ 49)
   \<and> acc agent_K' = (0, 0)"
proof -
  have h: "dna_get (dna agent_K) ''speed'' = Inr (7 / 2)"
    "vel agent_K = (4, 3)" "acc agent_K = (6, 9 / 2)"
    by (simp_all add: agent_K_def prey_at_def PREY_DNA_def dna_get_def)
  have e: "fl VECTOR_EPSILON \<le> 7 / 2"
    using fl_epsilon by simp
  from update_physics_speed_limit [OF h(1) e] h update_physics_fl_K
  show ?thesis
    by simp
qed

theorem update_physics_speed_limit_counterexample:
  "dna_get (dna agent_K) ''speed'' = Inr (7 / 2)
   \<and> update_physics_fl agent_K = Inr agent_K'
   \<and> vel agent_K' = (6305039478318695 / 2 ^ 51, 4728779608739021 / 2 ^ 51)
   \<and> \<not> vlength (vel agent_K') \<le> 7 / 2
   \<and> vlength_fl (vel agent_K') = 7 / 2 + 1 / 2 ^ 51"
proof -
  have "dna_get (dna agent_K) ''speed'' = Inr (7 / 2)"
    by (simp add: agent_K_def prey_at_def PREY_DNA_def dna_get_def)
  moreover have "vel agent_K' = (6305039478318695 / 2 ^ 51, 4728779608739021 / 2 ^ 51)"
    by (simp add: agent_K'_def prey_at_def)
  moreover have "\<not> vlength (vel agent_K') \<le> 7 / 2"
    using K_too_fast by simp
  moreover have "vlength_fl (vel agent_K') = 7 / 2 + 1 / 2 ^ 51"
    by (simp add: vlength_fl_K)
  ultimately show ?thesis
    using update_physics_fl_K by blast
qed

subsection \<open>SpatialGrid\<close>

lemma concat_product:
  "concat (map (\<lambda>x. concat (map (\<lambda>y. f (x, y)) ys)) xs) = concat (map f (List.product xs ys))"
  by (induction xs) (simp_all add: comp_def)

lemma get_nearby_square: "get_nearby cells p r = concat (map (bucket cells) (square (cell_of p) r))"
  by (cases "cell_of p") (simp add: get_nearby_def square_def concat_product)

lemma distinct_square: "distinct (square c r)"
  by (simp add: square_def distinct_product)

lemma set_square: "set (square c r) = {(x, y). \<bar>x - fst c\<bar> \<le> r \<and> \<bar>y - snd c\<bar> \<le> r}"
  by (auto simp: square_def)

lemma bucket_add:
  "bucket (SpatialGrid_add p obj cells) idx =
     (if idx = cell_of p then bucket cells idx @ [obj] else bucket cells idx)"
  by (simp add: SpatialGrid_add_def bucket_def Let_def split: option.splits)

lemma mset_buckets_add:
  "distinct cs \<Longrightarrow>
   mset (concat (map (bucket (SpatialGrid_add p obj cells)) cs)) =
   mset (concat (map (bucket cells) cs)) + (if cell_of p \<in> set cs then {#obj#} else {#})"
  by (induction cs) (auto simp: bucket_add)

lemma mset_get_nearby_add:
  "mset (get_nearby (SpatialGrid_add p obj cells) c r) =
   mset (get_nearby cells c r) + (if cell_of p \<in> set (square (cell_of c) r) then {#obj#} else {#})"
  by (simp add: get_nearby_square mset_buckets_add distinct_square)

lemma mset_get_nearby_add_all:
  "mset (get_nearby (add_all es cells) c r) =
   mset (get_nearby cells c r)
   + mset (map snd (filter (\<lambda>(p, obj). cell_of p \<in> set (square (cell_of c) r)) es))"
proof (induction es arbitrary: cells)
  case Nil
  then show ?case by (simp add: add_all_def)
next
  case (Cons e es)
  obtain p obj where e: "e = (p, obj)" by (cases e)
  have "add_all (e # es) cells = add_all es (SpatialGrid_add p obj cells)"
    by (simp add: add_all_def e)
  then show ?case
    using Cons.IH [of "SpatialGrid_add p obj cells"]
    by (simp add: e mset_get_nearby_add)
qed

lemma get_nearby_clear: "get_nearby SpatialGrid_clear c r = []"
  by (simp add: get_nearby_square bucket_def SpatialGrid_clear_def)

lemma cell_of_in_world:
  assumes "in_world p"
  shows "0 \<le> fst (cell_of p) \<and> fst (cell_of p) \<le> 16 \<and> 0 \<le> snd (cell_of p) \<and> snd (cell_of p) \<le> 16"
proof (cases p)
  case (Pair x y)
  with assms have b: "0 \<le> x" "x \<le> 2000" "0 \<le> y" "y \<le> 2000"
    by (simp_all add: in_world_def WORLD_W_def WORLD_H_def)
  have "\<lfloor>x / 120\<rfloor> \<le> 16" "0 \<le> \<lfloor>x / 120\<rfloor>" "\<lfloor>y / 120\<rfloor> \<le> 16" "0 \<le> \<lfloor>y / 120\<rfloor>"
    using b by (simp_all add: floor_le_iff le_floor_iff)
  then show ?thesis
    using Pair by (simp add: CELL_SIZE_def)
qed

text \<open>
  C5. When entities with positions in the world are inserted into a cleared grid, a query
  from a point of the world with a cell radius of at least 16 (the world has the cells 0 to
  16 on each axis) returns exactly the inserted entities, as a multiset: none is missing and
  none comes twice. And for every grid and every query, an object is returned if and only if
  it is in the bucket of a cell at Chebyshev distance at most the radius from the cell of the
  query point.
\<close>

theorem spatial_grid_round_trip:
  "((\<forall>e \<in> set es. in_world (fst e)) \<and> in_world c \<and> 16 \<le> r \<longrightarrow>
      mset (get_nearby (add_all es SpatialGrid_clear) c r) = mset (map snd es))
   \<and> (obj \<in> set (get_nearby cells c r) \<longleftrightarrow>
        (\<exists>x y. \<bar>x - fst (cell_of c)\<bar> \<le> r \<and> \<bar>y - snd (cell_of c)\<bar> \<le> r
           \<and> obj \<in> set (bucket cells (x, y))))"
proof (intro conjI impI)
  assume a: "(\<forall>e \<in> set es. in_world (fst e)) \<and> in_world c \<and> 16 \<le> r"
  have "cell_of p \<in> set (square (cell_of c) r)" if "(p, ob) \<in> set es" for p ob
  proof -
    have "in_world p" using a that by auto
    from cell_of_in_world [OF this] cell_of_in_world [of c] a
    show ?thesis
      by (cases "cell_of p") (auto simp: set_square)
  qed
  then have "filter (\<lambda>(p, obj). cell_of p \<in> set (square (cell_of c) r)) es = es"
    by (auto simp: filter_id_conv)
  then show "mset (get_nearby (add_all es SpatialGrid_clear) c r) = mset (map snd es)"
    by (simp add: mset_get_nearby_add_all get_nearby_clear)
next
  show "obj \<in> set (get_nearby cells c r) \<longleftrightarrow>
        (\<exists>x y. \<bar>x - fst (cell_of c)\<bar> \<le> r \<and> \<bar>y - snd (cell_of c)\<bar> \<le> r
           \<and> obj \<in> set (bucket cells (x, y)))"
    by (auto simp: get_nearby_square set_square)
qed


theorem spatial_grid_round_trip_witness:
  "in_world (10, 10) \<and> in_world (1990, 1990) \<and> in_world (1000, 30)
   \<and> in_world (1000, 1000) \<and> (16::int) \<le> 16
   \<and> mset (get_nearby
        (add_all [((10, 10), 0::nat), ((1990, 1990), 1), ((1000, 30), 2)] SpatialGrid_clear)
        (1000, 1000) 16) = mset [0, 1, 2]"
proof -
  have w: "in_world (10, 10) \<and> in_world (1990, 1990) \<and> in_world (1000, 30)
    \<and> in_world (1000, 1000)"
    by (simp add: in_world_def WORLD_W_def WORLD_H_def)
  then have h: "(\<forall>e \<in> set [((10, 10), 0::nat), ((1990, 1990), 1), ((1000, 30), 2)]. in_world (fst e))
    \<and> in_world (1000, 1000) \<and> (16::int) \<le> 16"
    by simp
  from spatial_grid_round_trip
    [of "[((10, 10), 0::nat), ((1990, 1990), 1), ((1000, 30), 2)]" "(1000, 1000)" 16, THEN conjunct1]
  show ?thesis
    using h w by simp
qed

subsection \<open>Reproduction and mutation\<close>

lemma uniform_simps: "fst (uniform a b r) = a + (b - a) * r 0" "snd (uniform a b r) = (\<lambda>n. r (Suc n))"
  by (simp_all add: uniform_def random_def)

lemma uniform_eq: "uniform a b r = (a + (b - a) * r 0, \<lambda>n. r (Suc n))"
  by (simp add: uniform_def random_def)

lemma mutate_dna_props:
  "mutate_dna d r = (d', r') \<Longrightarrow>
     map fst d' = map fst d \<and> length d' = length d \<and> r' = (\<lambda>n. r (n + length d))
     \<and> (\<forall>i<length d. snd (d' ! i) = snd (d ! i) * fst (uniform (9 / 10) (11 / 10) (\<lambda>n. r (n + i))))"
proof (induction d arbitrary: r d' r')
  case Nil
  then show ?case by simp
next
  case (Cons kv d)
  obtain k v where kv: "kv = (k, v)" by (cases kv)
  obtain d2 r2 where m: "mutate_dna d (\<lambda>n. r (Suc n)) = (d2, r2)"
    by (cases "mutate_dna d (\<lambda>n. r (Suc n))")
  from Cons.prems have d': "d' = (k, v * (9 / 10 + (11 / 10 - 9 / 10) * r 0)) # d2" and r': "r' = r2"
    by (simp_all add: kv uniform_eq m)
  note ih = Cons.IH [OF m]
  show ?case
  proof (intro conjI allI impI)
    show "map fst d' = map fst (kv # d)" using ih by (simp add: d' kv)
    show "length d' = length (kv # d)" using ih by (simp add: d')
    show "r' = (\<lambda>n. r (n + length (kv # d)))" using ih by (simp add: r')
    fix i assume "i < length (kv # d)"
    then show "snd (d' ! i) = snd ((kv # d) ! i) * fst (uniform (9 / 10) (11 / 10) (\<lambda>n. r (n + i)))"
      using ih by (cases i) (simp_all add: d' kv uniform_simps)
  qed
qed

lemma Prey_init_fields:
  "Prey_init x y d r = (c, r') \<Longrightarrow>
     pos c = (x, y) \<and> active c \<and> acc c = (0, 0) \<and> energy c = 150 \<and> max_energy c = 400
     \<and> dna c = dna_or_default d PREY_DNA"
  by (auto simp: Prey_init_def Agent_init_def uniform_eq)

lemma Predator_init_fields:
  "Predator_init x y d r = (c, r') \<Longrightarrow>
     pos c = (x, y) \<and> active c \<and> acc c = (0, 0) \<and> energy c = 300 \<and> max_energy c = 400
     \<and> dna c = dna_or_default d PRED_DNA"
  by (auto simp: Predator_init_def Agent_init_def uniform_eq)

lemma prey_reproduce_cases:
  assumes "prey_reproduce p r = (p', born, r')"
  shows "if energy p > REPRO_COST_PREY + 50
         then p' = p\<lparr>energy := energy p - REPRO_COST_PREY\<rparr>
            \<and> (\<exists>c. born = [c] \<and> pos c = pos p \<and> active c \<and> acc c = (0, 0) \<and> energy c = 150
                 \<and> dna c = dna_or_default (Some (fst (mutate_dna (dna p) r))) PREY_DNA)
         else p' = p \<and> born = [] \<and> r' = r"
  using assms
  by (auto simp: prey_reproduce_def Let_def split: prod.splits if_splits dest!: Prey_init_fields)

lemma pred_reproduce_cases:
  assumes "pred_reproduce p r = (p', born, r')"
  shows "if energy p > REPRO_COST_PRED + 50
         then p' = p\<lparr>energy := energy p - REPRO_COST_PRED\<rparr>
            \<and> (\<exists>c. born = [c] \<and> pos c = pos p \<and> active c \<and> acc c = (0, 0) \<and> energy c = 300
                 \<and> dna c = dna_or_default (Some (fst (mutate_dna (dna p) r))) PRED_DNA)
         else p' = p \<and> born = [] \<and> r' = r"
  using assms
  by (auto simp: pred_reproduce_def Let_def split: prod.splits if_splits dest!: Predator_init_fields)

text \<open>
  In exact arithmetic each value of the child is the parent's value times a factor of
  \<open>[0.9, 1.1]\<close>, and so within ten percent of it.
\<close>

lemma mutated_genome_exact:
  assumes "rng_ok r" and "\<forall>kv \<in> set (dna p). 0 < snd kv" and "dna p \<noteq> []"
    and "prey_reproduce p r = (p', born, r') \<or> pred_reproduce p r = (p', born, r')"
    and "c \<in> set born"
  shows "map fst (dna c) = map fst (dna p)
    \<and> (\<forall>i<length (dna p). \<exists>f. f = fst (uniform (9 / 10) (11 / 10) (\<lambda>n. r (n + i)))
          \<and> 9 / 10 \<le> f \<and> f \<le> 11 / 10
          \<and> snd (dna c ! i) = snd (dna p ! i) * f
          \<and> \<bar>snd (dna c ! i) - snd (dna p ! i)\<bar> \<le> snd (dna p ! i) / 10
          \<and> 0 < snd (dna c ! i))"
proof -
  obtain d' r1 where m: "mutate_dna (dna p) r = (d', r1)"
    by (cases "mutate_dna (dna p) r")
  note mp = mutate_dna_props [OF m]
  from mp assms(3) have "d' \<noteq> []" by auto
  have "dna c = dna_or_default (Some d') PREY_DNA \<or> dna c = dna_or_default (Some d') PRED_DNA"
    using assms(4,5) prey_reproduce_cases [of p r p' born r'] pred_reproduce_cases [of p r p' born r']
    by (auto simp: m split: if_splits)
  then have dc: "dna c = d'"
    using \<open>d' \<noteq> []\<close> by (auto simp: dna_or_default_def)
  show ?thesis
  proof (intro conjI allI impI)
    show "map fst (dna c) = map fst (dna p)" using mp by (simp add: dc)
    fix i assume i: "i < length (dna p)"
    let ?f = "fst (uniform (9 / 10) (11 / 10) (\<lambda>n. r (n + i)))"
    have u: "0 \<le> r i" "r i < 1" using assms(1) by (auto simp: rng_ok_def)
    have f: "9 / 10 \<le> ?f" "?f \<le> 11 / 10"
      using u by (simp_all add: uniform_simps)
    have v: "0 < snd (dna p ! i)" using assms(2) i by auto
    have e: "snd (dna c ! i) = snd (dna p ! i) * ?f" using mp i by (simp add: dc)
    have "snd (dna p ! i) * ?f - snd (dna p ! i) = snd (dna p ! i) * (?f - 1)"
      by (simp add: algebra_simps)
    moreover have "\<bar>?f - 1\<bar> \<le> 1 / 10" using f by linarith
    ultimately have a: "\<bar>snd (dna c ! i) - snd (dna p ! i)\<bar> \<le> snd (dna p ! i) / 10"
      using v e by (simp add: abs_mult mult_left_le)
    have "0 < snd (dna p ! i) * ?f"
      using v f by (intro mult_pos_pos) auto
    with e a f
    show "\<exists>f. f = ?f \<and> 9 / 10 \<le> f \<and> f \<le> 11 / 10
          \<and> snd (dna c ! i) = snd (dna p ! i) * f
          \<and> \<bar>snd (dna c ! i) - snd (dna p ! i)\<bar> \<le> snd (dna p ! i) / 10
          \<and> 0 < snd (dna c ! i)"
      by simp
  qed
qed

text \<open>The roundings of the factors and of the examples Q and R; the arguments are in lowest terms.\<close>

lemma uniform_fl_eq:
  "uniform_fl a b r = (fl (a + fl (fl (b - a) * r 0)), \<lambda>n. r (Suc n))"
  by (simp add: uniform_fl_def random_def)

lemma fl_9_10: "fl (9 / 10) = 8106479329266893 / 9007199254740992"
  using fl_eqI [of "9 / 10" 53 "8106479329266893"] by simp

lemma fl_11_10: "fl (11 / 10) = 2476979795053773 / 2251799813685248"
  using fl_eqI [of "11 / 10" 52 "4953959590107546"] by simp

lemma fl_D: "fl (1801439850948199 / 9007199254740992) = 1801439850948199 / 9007199254740992"
  using fl_eqI [of "1801439850948199 / 9007199254740992" 55 "7205759403792796"] by simp

lemma fl_aw_0: "fl (8106479329266893 / 9007199254740992) = 8106479329266893 / 9007199254740992"
  using fl_eqI [of "8106479329266893 / 9007199254740992" 53 "8106479329266893"] by simp

lemma fl_Du_1: "fl (1801439850948199 / 36028797018963968) = 1801439850948199 / 36028797018963968"
  using fl_eqI [of "1801439850948199 / 36028797018963968" 57 "7205759403792796"] by simp

lemma fl_aw_1: "fl (34227357168015771 / 36028797018963968) = 8556839292003943 / 9007199254740992"
  using fl_eqI [of "34227357168015771 / 36028797018963968" 53 "8556839292003943"] by simp

lemma fl_Du_2: "fl (16225927682921339942037502925209 / 81129638414606681695789005144064) = 7205759403792795 / 36028797018963968"
  using fl_eqI [of "16225927682921339942037502925209 / 81129638414606681695789005144064" 55 "7205759403792795"] by simp

lemma fl_aw_2: "fl (39631676720860367 / 36028797018963968) = 2476979795053773 / 2251799813685248"
  using fl_eqI [of "39631676720860367 / 36028797018963968" 52 "4953959590107546"] by simp

lemma fl_42_10: "fl (21 / 5) = 4728779608739021 / 1125899906842624"
  using fl_eqI [of "21 / 5" 50 "4728779608739021"] by simp

lemma fl_3_10: "fl (3 / 10) = 5404319552844595 / 18014398509481984"
  using fl_eqI [of "3 / 10" 54 "5404319552844595"] by simp

lemma fl_prey_0: "fl (56745355304868251 / 18014398509481984) = 7093169413108531 / 2251799813685248"
  using fl_eqI [of "56745355304868251 / 18014398509481984" 51 "7093169413108531"] by simp

lemma fl_prey_1: "fl (8556839292003943 / 18014398509481984) = 8556839292003943 / 18014398509481984"
  using fl_eqI [of "8556839292003943 / 18014398509481984" 54 "8556839292003943"] by simp

lemma fl_prey_2: "fl (61924494876344325 / 562949953421312) = 7740561859543041 / 70368744177664"
  using fl_eqI [of "61924494876344325 / 562949953421312" 46 "7740561859543041"] by simp

lemma fl_pred_0: "fl (38333754150901659668312092531753 / 10141204801825835211973625643008) = 4255901647865119 / 1125899906842624"
  using fl_eqI [of "38333754150901659668312092531753 / 10141204801825835211973625643008" 51 "8511803295730238"] by simp

lemma fl_pred_1: "fl (46243893896325810097823606238085 / 162259276829213363391578010288128) = 2567051787601183 / 9007199254740992"
  using fl_eqI [of "46243893896325810097823606238085 / 162259276829213363391578010288128" 54 "5134103575202366"] by simp

lemma fl_pred_2: "fl (111464090777419785 / 562949953421312) = 6966505673588737 / 35184372088832"
  using fl_eqI [of "111464090777419785 / 562949953421312" 45 "6966505673588737"] by simp

text \<open>
  In double precision the factor lies between the doubles \<^verbatim>\<open>0.9\<close> and \<^verbatim>\<open>1.1\<close>, and the
  value of the child is the rounding of the product.
\<close>

lemma factor_range:
  assumes "0 \<le> u" and "u < 1"
  shows "fl (9 / 10) \<le> fl (fl (9 / 10) + fl (fl (fl (11 / 10) - fl (9 / 10)) * u))"
    and "fl (fl (9 / 10) + fl (fl (fl (11 / 10) - fl (9 / 10)) * u)) \<le> fl (11 / 10)"
proof -
  define w where "w = fl (7205759403792796 / 2 ^ 55 * u)"
  have d: "fl (fl (11 / 10) - fl (9 / 10)) = 7205759403792796 / 2 ^ 55"
    by (simp add: fl_9_10 fl_11_10 fl_D)
  have w0: "0 \<le> w"
    unfolding w_def using assms(1) by (intro fl_nonneg) simp
  have "7205759403792796 / 2 ^ 55 * u \<le> of_int 7205759403792796 / 2 ^ 55"
    using assms by simp
  then have "w \<le> of_int 7205759403792796 / 2 ^ 55"
    unfolding w_def by (intro fl_le_dyadic) simp_all
  then have w1: "w \<le> 7205759403792796 / 2 ^ 55" by simp
  have a: "fl (9 / 10) = of_int 8106479329266893 / 2 ^ 53"
    by (simp add: fl_9_10)
  have b: "fl (11 / 10) = of_int 4953959590107546 / 2 ^ 52"
    by (simp add: fl_11_10)
  have "of_int 8106479329266893 / 2 ^ 53 \<le> fl (of_int 8106479329266893 / 2 ^ 53 + w)"
    using w0 by (intro fl_ge_dyadic) simp_all
  then show "fl (9 / 10) \<le> fl (fl (9 / 10) + fl (fl (fl (11 / 10) - fl (9 / 10)) * u))"
    unfolding d w_def [symmetric] unfolding a .
  have "fl (of_int 8106479329266893 / 2 ^ 53 + w) \<le> of_int 4953959590107546 / 2 ^ 52"
    using w1 by (intro fl_le_dyadic) simp_all
  then show "fl (fl (9 / 10) + fl (fl (fl (11 / 10) - fl (9 / 10)) * u)) \<le> fl (11 / 10)"
    unfolding d w_def [symmetric] unfolding a b .
qed

lemma child_value:
  assumes "0 < v" and "fl (9 / 10) \<le> f" and "f \<le> fl (11 / 10)"
  shows "\<bar>fl (v * f) - v\<bar> \<le> v * (1 / 10 + 1 / 2 ^ 52)" and "0 < fl (v * f)"
proof -
  have f: "9 / 10 \<le> f" "f \<le> 11 / 10 + 1 / (5 * 2 ^ 51)"
    using assms(2,3) by (simp_all add: fl_9_10 fl_11_10)
  then have fp: "0 < f" by simp
  have p: "0 < v * f" using assms(1) fp by (rule mult_pos_pos)
  then show "0 < fl (v * f)" by (rule fl_pos)
  have n: "0 \<le> v * f" using p by simp
  have "fl (v * f) \<le> v * f * (1 + 1 / 2 ^ 53)" by (rule fl_bounds(2) [OF n])
  also have "\<dots> = v * (f * (1 + 1 / 2 ^ 53))" by simp
  also have "\<dots> \<le> v * (11 / 10 + 1 / 2 ^ 52)"
  proof (intro mult_left_mono)
    have "f * (1 + 1 / 2 ^ 53) \<le> (11 / 10 + 1 / (5 * 2 ^ 51)) * (1 + 1 / 2 ^ 53)"
      using f(2) by (intro mult_right_mono) simp_all
    also have "\<dots> \<le> 11 / 10 + 1 / 2 ^ 52" by simp
    finally show "f * (1 + 1 / 2 ^ 53) \<le> 11 / 10 + 1 / 2 ^ 52" .
    show "0 \<le> v" using assms(1) by simp
  qed
  finally have up: "fl (v * f) \<le> v * (11 / 10 + 1 / 2 ^ 52)" .
  have "v * (9 / 10 - 1 / 2 ^ 52) \<le> v * (f * (1 - 1 / 2 ^ 53))"
  proof (intro mult_left_mono)
    have "(9 / 10 :: real) - 1 / 2 ^ 52 \<le> 9 / 10 * (1 - 1 / 2 ^ 53)" by simp
    also have "\<dots> \<le> f * (1 - 1 / 2 ^ 53)"
      using f(1) by (intro mult_right_mono) simp_all
    finally show "9 / 10 - 1 / 2 ^ 52 \<le> f * (1 - 1 / 2 ^ 53)" .
    show "0 \<le> v" using assms(1) by simp
  qed
  also have "\<dots> = v * f * (1 - 1 / 2 ^ 53)" by simp
  also have "\<dots> \<le> fl (v * f)" by (rule fl_bounds(1) [OF n])
  finally have lo: "v * (9 / 10 - 1 / 2 ^ 52) \<le> fl (v * f)" .
  have "fl (v * f) - v \<le> v * (1 / 10 + 1 / 2 ^ 52)"
    using up by (simp add: algebra_simps)
  moreover have "v - fl (v * f) \<le> v * (1 / 10 + 1 / 2 ^ 52)"
    using lo by (simp add: algebra_simps)
  ultimately show "\<bar>fl (v * f) - v\<bar> \<le> v * (1 / 10 + 1 / 2 ^ 52)"
    by (simp only: abs_le_iff) simp
qed

lemma mutate_dna_fl_props:
  "mutate_dna_fl d r = (d', r') \<Longrightarrow>
     map fst d' = map fst d \<and> length d' = length d \<and> r' = (\<lambda>n. r (n + length d))
     \<and> (\<forall>i<length d. snd (d' ! i)
            = fl (snd (d ! i) * fst (uniform_fl (fl (9 / 10)) (fl (11 / 10)) (\<lambda>n. r (n + i)))))"
proof (induction d arbitrary: r d' r')
  case Nil
  then show ?case by simp
next
  case (Cons kv d)
  obtain k v where kv: "kv = (k, v)" by (cases kv)
  obtain d2 r2 where m: "mutate_dna_fl d (\<lambda>n. r (Suc n)) = (d2, r2)"
    by (cases "mutate_dna_fl d (\<lambda>n. r (Suc n))")
  from Cons.prems have
    d': "d' = (k, fl (v * fst (uniform_fl (fl (9 / 10)) (fl (11 / 10)) r))) # d2" and r': "r' = r2"
    by (simp_all add: kv uniform_fl_eq m)
  note ih = Cons.IH [OF m]
  show ?case
  proof (intro conjI allI impI)
    show "map fst d' = map fst (kv # d)" using ih by (simp add: d' kv)
    show "length d' = length (kv # d)" using ih by (simp add: d')
    show "r' = (\<lambda>n. r (n + length (kv # d)))" using ih by (simp add: r')
    fix i assume "i < length (kv # d)"
    then show "snd (d' ! i)
        = fl (snd ((kv # d) ! i) * fst (uniform_fl (fl (9 / 10)) (fl (11 / 10)) (\<lambda>n. r (n + i))))"
      using ih by (cases i) (simp_all add: d' kv uniform_fl_eq)
  qed
qed

lemma Prey_init_fl_dna: "Prey_init_fl x y d r = (c, r') \<Longrightarrow> dna c = dna_or_default d PREY_DNA_fl"
  by (auto simp: Prey_init_fl_def Agent_init_fl_def uniform_fl_eq)

lemma Predator_init_fl_dna:
  "Predator_init_fl x y d r = (c, r') \<Longrightarrow> dna c = dna_or_default d PRED_DNA_fl"
  by (auto simp: Predator_init_fl_def Agent_init_fl_def uniform_fl_eq)

lemma prey_reproduce_fl_born:
  assumes "prey_reproduce_fl p r = (p', born, r')" and "c \<in> set born"
  shows "dna c = dna_or_default (Some (fst (mutate_dna_fl (dna p) r))) PREY_DNA_fl"
  using assms
  by (auto simp: prey_reproduce_fl_def Let_def split: prod.splits if_splits
      dest!: Prey_init_fl_dna)

lemma pred_reproduce_fl_born:
  assumes "pred_reproduce_fl p r = (p', born, r')" and "c \<in> set born"
  shows "dna c = dna_or_default (Some (fst (mutate_dna_fl (dna p) r))) PRED_DNA_fl"
  using assms
  by (auto simp: pred_reproduce_fl_def Let_def split: prod.splits if_splits
      dest!: Predator_init_fl_dna)

lemma mutated_genome_fl:
  assumes "rng_ok r" and "\<forall>kv \<in> set (dna p). 0 < snd kv" and "dna p \<noteq> []"
    and "prey_reproduce_fl p r = (p', born, r') \<or> pred_reproduce_fl p r = (p', born, r')"
    and "c \<in> set born"
  shows "map fst (dna c) = map fst (dna p)
    \<and> (\<forall>i<length (dna p).
          \<exists>f. f = fst (uniform_fl (fl (9 / 10)) (fl (11 / 10)) (\<lambda>n. r (n + i)))
          \<and> fl (9 / 10) \<le> f \<and> f \<le> fl (11 / 10)
          \<and> snd (dna c ! i) = fl (snd (dna p ! i) * f)
          \<and> \<bar>snd (dna c ! i) - snd (dna p ! i)\<bar> \<le> snd (dna p ! i) * (1 / 10 + 1 / 2 ^ 52)
          \<and> 0 < snd (dna c ! i))
    \<and> fl (9 / 10) = 9 / 10 + 1 / (5 * 2 ^ 53) \<and> fl (11 / 10) = 11 / 10 + 1 / (5 * 2 ^ 51)"
proof -
  obtain d' r1 where m: "mutate_dna_fl (dna p) r = (d', r1)"
    by (cases "mutate_dna_fl (dna p) r")
  note mp = mutate_dna_fl_props [OF m]
  from mp assms(3) have "d' \<noteq> []" by auto
  have "dna c = dna_or_default (Some d') PREY_DNA_fl \<or> dna c = dna_or_default (Some d') PRED_DNA_fl"
    using assms(4,5) prey_reproduce_fl_born [of p r p' born r' c]
      pred_reproduce_fl_born [of p r p' born r' c]
    by (auto simp: m)
  then have dc: "dna c = d'"
    using \<open>d' \<noteq> []\<close> by (auto simp: dna_or_default_def)
  show ?thesis
  proof (intro conjI allI impI)
    show "map fst (dna c) = map fst (dna p)" using mp by (simp add: dc)
    show "fl (9 / 10) = 9 / 10 + 1 / (5 * 2 ^ 53)" by (simp add: fl_9_10)
    show "fl (11 / 10) = 11 / 10 + 1 / (5 * 2 ^ 51)" by (simp add: fl_11_10)
    fix i assume i: "i < length (dna p)"
    let ?f = "fst (uniform_fl (fl (9 / 10)) (fl (11 / 10)) (\<lambda>n. r (n + i)))"
    have u: "0 \<le> r i" "r i < 1" using assms(1) by (auto simp: rng_ok_def)
    have f: "fl (9 / 10) \<le> ?f" "?f \<le> fl (11 / 10)"
      using factor_range [OF u] by (simp_all add: uniform_fl_eq)
    have v: "0 < snd (dna p ! i)" using assms(2) i by auto
    have e: "snd (dna c ! i) = fl (snd (dna p ! i) * ?f)" using mp i by (simp add: dc)
    from child_value [OF v f] e f
    show "\<exists>f. f = ?f \<and> fl (9 / 10) \<le> f \<and> f \<le> fl (11 / 10)
          \<and> snd (dna c ! i) = fl (snd (dna p ! i) * f)
          \<and> \<bar>snd (dna c ! i) - snd (dna p ! i)\<bar> \<le> snd (dna p ! i) * (1 / 10 + 1 / 2 ^ 52)
          \<and> 0 < snd (dna c ! i)"
      by simp
  qed
qed

lemma rng_Q_simps:
  "rng_Q 0 = 0" "rng_Q (Suc 0) = 1 / 4" "rng_Q (Suc (Suc 0)) = 1 - 1 / 2 ^ 53"
  "(\<lambda>n. rng_Q (Suc (Suc (Suc n)))) = rng_half"
  by (simp_all add: rng_Q_def rng_half_def)

lemma rng_ok_Q: "rng_ok rng_Q"
  by (simp add: rng_ok_def rng_Q_def)

lemmas fl_Q = fl_numeral fl_neg_numeral fl_9_10 fl_11_10 fl_D fl_aw_0 fl_Du_1 fl_aw_1 fl_Du_2
  fl_aw_2 fl_42_10 fl_3_10 fl_prey_0 fl_prey_1 fl_prey_2 fl_pred_0 fl_pred_1 fl_pred_2

lemma mutate_dna_fl_Q: "mutate_dna_fl PREY_DNA rng_Q = (DNA_Q, rng_half)"
  by (simp add: PREY_DNA_def DNA_Q_def uniform_fl_eq rng_Q_simps fl_Q)

lemma mutate_dna_fl_R: "mutate_dna_fl PRED_DNA_fl rng_Q = (DNA_R, rng_half)"
  by (simp add: PRED_DNA_fl_def PRED_DNA_def DNA_R_def uniform_fl_eq rng_Q_simps fl_Q)

lemma Agent_init_fl_half:
  "Agent_init_fl x y d rng_half
     = (\<lparr>pos = (x, y), active = True, vel = (0, 0), acc = (0, 0), dna = d,
          energy = 150, max_energy = 400, radius = 5, color = C_WHITE,
          wander_theta = 50\<rparr>, rng_half)"
  by (simp add: Agent_init_fl_def uniform_fl_eq rng_half_def fl_numeral)

lemma prey_reproduce_fl_Q:
  "prey_reproduce_fl prey_Q rng_Q = (prey_Q\<lparr>energy := 100\<rparr>, [child_Q], rng_half)"
proof -
  have d: "DNA_Q \<noteq> []" by (simp add: DNA_Q_def)
  show ?thesis
    by (simp add: prey_reproduce_fl_def prey_Q_def child_Q_def prey_at_def REPRO_COST_PREY_def
        Let_def mutate_dna_fl_Q Prey_init_fl_def Agent_init_fl_half dna_or_default_def d fl_numeral)
qed

lemma pred_reproduce_fl_R:
  "pred_reproduce_fl pred_R rng_Q = (pred_R\<lparr>energy := 150\<rparr>, [child_R], rng_half)"
proof -
  have d: "DNA_R \<noteq> []" by (simp add: DNA_R_def)
  show ?thesis
    by (simp add: pred_reproduce_fl_def pred_R_def child_R_def predator_at_def REPRO_COST_PRED_def
        Let_def mutate_dna_fl_R Predator_init_fl_def Agent_init_fl_half dna_or_default_def d
        fl_numeral)
qed

text \<open>
  C8 (as amended). The arithmetic is that of doubles. When a prey or a predator with a
  genome (not empty, all values between \<open>2\<^sup>-\<^sup>1\<^sup>0\<^sup>0\<^sup>0\<close> and \<open>2\<^sup>1\<^sup>0\<^sup>0\<^sup>0\<close>, so that no product
  overflows or is subnormal) reproduces, the genome of the offspring has the keys of the
  parent's, in the same order; each value of the child is the parent's value times a
  factor of its own, rounded; the factor is the \<open>i\<close>-th draw of
  \<^verbatim>\<open>random.uniform(0.9, 1.1)\<close> after the start of the mutation and lies between the
  doubles \<^verbatim>\<open>0.9\<close> and \<^verbatim>\<open>1.1\<close>, which are \<open>0.9 + 2\<^sup>-\<^sup>5\<^sup>3 / 5\<close> and \<open>1.1 + 2\<^sup>-\<^sup>5\<^sup>1 / 5\<close>;
  the value of the child differs from the parent's by at most the parent's value times
  \<open>1 / 10 + 2\<^sup>-\<^sup>5\<^sup>2\<close>, and is positive. The factor can be above \<open>1.1\<close> and the difference
  above ten percent: in example Q the speed \<open>3.5\<close> becomes \<open>3.15\<close> rounded down, and
  the sense \<open>100\<close> becomes \<open>110.00000000000001\<close>.
\<close>

theorem offspring_genome:
  assumes "rng_ok r"
    and "\<forall>kv \<in> set (dna p). 1 / 2 ^ 1000 \<le> snd kv \<and> snd kv \<le> 2 ^ 1000"
    and "dna p \<noteq> []"
    and "prey_reproduce_fl p r = (p', born, r') \<or> pred_reproduce_fl p r = (p', born, r')"
    and "c \<in> set born"
  shows "map fst (dna c) = map fst (dna p)
    \<and> (\<forall>i<length (dna p).
          \<exists>f. f = fst (uniform_fl (fl (9 / 10)) (fl (11 / 10)) (\<lambda>n. r (n + i)))
          \<and> fl (9 / 10) \<le> f \<and> f \<le> fl (11 / 10)
          \<and> snd (dna c ! i) = fl (snd (dna p ! i) * f)
          \<and> \<bar>snd (dna c ! i) - snd (dna p ! i)\<bar> \<le> snd (dna p ! i) * (1 / 10 + 1 / 2 ^ 52)
          \<and> 0 < snd (dna c ! i))
    \<and> fl (9 / 10) = 9 / 10 + 1 / (5 * 2 ^ 53) \<and> fl (11 / 10) = 11 / 10 + 1 / (5 * 2 ^ 51)"
proof -
  have "\<forall>kv \<in> set (dna p). 0 < snd kv"
  proof
    fix kv assume "kv \<in> set (dna p)"
    with assms(2) have "1 / 2 ^ 1000 \<le> snd kv" by blast
    moreover have "(0 :: real) < 1 / 2 ^ 1000" by simp
    ultimately show "0 < snd kv" by (rule less_le_trans [rotated])
  qed
  from mutated_genome_fl [OF assms(1) this assms(3,4,5)] show ?thesis .
qed

theorem offspring_genome_witness:
  "rng_ok rng_Q \<and> dna prey_Q \<noteq> [] \<and> dna pred_R \<noteq> []
   \<and> prey_reproduce_fl prey_Q rng_Q = (prey_Q\<lparr>energy := 100\<rparr>, [child_Q], rng_half)
   \<and> pred_reproduce_fl pred_R rng_Q = (pred_R\<lparr>energy := 150\<rparr>, [child_R], rng_half)
   \<and> map fst (dna child_Q) = map fst (dna prey_Q)
   \<and> map fst (dna child_R) = map fst (dna pred_R)
   \<and> snd (dna child_Q ! 1)
       = fl (snd (dna prey_Q ! 1) * fst (uniform_fl (fl (9 / 10)) (fl (11 / 10)) (\<lambda>n. rng_Q (n + 1))))
   \<and> \<bar>snd (dna child_Q ! 0) - snd (dna prey_Q ! 0)\<bar> \<le> snd (dna prey_Q ! 0) * (1 / 10 + 1 / 2 ^ 52)
   \<and> \<bar>snd (dna child_R ! 2) - snd (dna pred_R ! 2)\<bar> \<le> snd (dna pred_R ! 2) * (1 / 10 + 1 / 2 ^ 52)
   \<and> 0 < snd (dna child_R ! 1)
   \<and> snd (dna prey_Q ! 1) = 1 / 2 \<and> snd (dna child_Q ! 1) = 8556839292003943 / 2 ^ 54
   \<and> snd (dna pred_R ! 2) = 180 \<and> snd (dna child_R ! 2) = 6966505673588737 / 2 ^ 45"
proof -
  have q: "\<forall>kv \<in> set (dna prey_Q). 1 / 2 ^ 1000 \<le> snd kv \<and> snd kv \<le> 2 ^ 1000"
    "dna prey_Q \<noteq> []" "length (dna prey_Q) = 3"
    by (simp_all add: prey_Q_def prey_at_def PREY_DNA_def)
  have r: "\<forall>kv \<in> set (dna pred_R). 1 / 2 ^ 1000 \<le> snd kv \<and> snd kv \<le> 2 ^ 1000"
    "dna pred_R \<noteq> []" "length (dna pred_R) = 3"
    by (simp_all add: pred_R_def predator_at_def PRED_DNA_fl_def PRED_DNA_def fl_Q)
  have v: "snd (dna prey_Q ! 1) = 1 / 2" "snd (dna child_Q ! 1) = 8556839292003943 / 2 ^ 54"
    "snd (dna pred_R ! 2) = 180" "snd (dna child_R ! 2) = 6966505673588737 / 2 ^ 45"
    by (simp_all add: prey_Q_def child_Q_def pred_R_def child_R_def prey_at_def predator_at_def
        PREY_DNA_def PRED_DNA_fl_def PRED_DNA_def DNA_Q_def DNA_R_def fl_Q)
  have mq: "child_Q \<in> set [child_Q]" and mr: "child_R \<in> set [child_R]"
    by simp_all
  have l: "0 < length (dna prey_Q)" "1 < length (dna prey_Q)"
    "1 < length (dna pred_R)" "2 < length (dna pred_R)"
    using q(3) r(3) by simp_all
  note tq = offspring_genome [OF rng_ok_Q q(1,2) disjI1 [OF prey_reproduce_fl_Q] mq]
  note tr = offspring_genome [OF rng_ok_Q r(1,2) disjI2 [OF pred_reproduce_fl_R] mr]
  note aq = tq [THEN conjunct2, THEN conjunct1, rule_format]
  note ar = tr [THEN conjunct2, THEN conjunct1, rule_format]
  have tq': "map fst (dna child_Q) = map fst (dna prey_Q)"
    "snd (dna child_Q ! 1)
       = fl (snd (dna prey_Q ! 1) * fst (uniform_fl (fl (9 / 10)) (fl (11 / 10)) (\<lambda>n. rng_Q (n + 1))))"
    "\<bar>snd (dna child_Q ! 0) - snd (dna prey_Q ! 0)\<bar> \<le> snd (dna prey_Q ! 0) * (1 / 10 + 1 / 2 ^ 52)"
    using tq [THEN conjunct1] aq [OF l(2)] aq [OF l(1)] by blast+
  have tr': "map fst (dna child_R) = map fst (dna pred_R)"
    "\<bar>snd (dna child_R ! 2) - snd (dna pred_R ! 2)\<bar> \<le> snd (dna pred_R ! 2) * (1 / 10 + 1 / 2 ^ 52)"
    "0 < snd (dna child_R ! 1)"
    using tr [THEN conjunct1] ar [OF l(4)] ar [OF l(3)] by blast+
  show ?thesis
    using rng_ok_Q q(2) r(2) prey_reproduce_fl_Q pred_reproduce_fl_R tq' tr' v
    by (intro conjI)
qed

theorem offspring_genome_counterexample:
  "rng_ok rng_Q
   \<and> prey_reproduce_fl prey_Q rng_Q = (prey_Q\<lparr>energy := 100\<rparr>, [child_Q], rng_half)
   \<and> snd (dna prey_Q ! 0) = 7 / 2
   \<and> fst (uniform_fl (fl (9 / 10)) (fl (11 / 10)) rng_Q) = 9 / 10 + 1 / (5 * 2 ^ 53)
   \<and> snd (dna child_Q ! 0) = 7093169413108531 / 2 ^ 51
   \<and> \<not> snd (dna child_Q ! 0) = snd (dna prey_Q ! 0) * (9 / 10 + 1 / (5 * 2 ^ 53))
   \<and> \<not> \<bar>snd (dna child_Q ! 0) - snd (dna prey_Q ! 0)\<bar> \<le> snd (dna prey_Q ! 0) / 10
   \<and> snd (dna prey_Q ! 2) = 100
   \<and> fst (uniform_fl (fl (9 / 10)) (fl (11 / 10)) (\<lambda>n. rng_Q (n + 2))) = 11 / 10 + 1 / (5 * 2 ^ 51)
   \<and> \<not> 11 / 10 + 1 / (5 * 2 ^ 51) \<le> (11 / 10 :: real)
   \<and> snd (dna child_Q ! 2) = 7740561859543041 / 2 ^ 46
   \<and> \<not> \<bar>snd (dna child_Q ! 2) - snd (dna prey_Q ! 2)\<bar> \<le> snd (dna prey_Q ! 2) / 10"
  using rng_ok_Q prey_reproduce_fl_Q
  by (simp add: prey_Q_def child_Q_def prey_at_def PREY_DNA_def DNA_Q_def uniform_fl_eq
      rng_Q_def fl_Q)

lemma prey_loop_Cons_Inr:
  assumes "prey_loop (p # rest) gf gp qs new fs r = Inr (ps', new', fs', r')"
  shows "\<exists>u fs1 r1 p2 b r2 rest'.
      Prey_update p gf fs gp qs r = Inr (u, fs1, r1)
    \<and> prey_reproduce u r1 = (p2, b, r2)
    \<and> prey_loop rest gf gp qs (new @ b) fs1 r2 = Inr (rest', new', fs', r')
    \<and> ps' = p2 # rest'"
proof -
  from assms obtain u fs1 r1 where
    up: "Prey_update p gf fs gp qs r = Inr (u, fs1, r1)" and
    k: "(case prey_reproduce u r1 of (p2, born, r2) \<Rightarrow>
          ebind (prey_loop rest gf gp qs (new @ born) fs1 r2) (\<lambda>(rest', new_prey', fs', r').
            Inr (p2 # rest', new_prey', fs', r'))) = Inr (ps', new', fs', r')"
    by (auto simp: ebind_Inr_iff)
  obtain p2 b r2 where rp: "prey_reproduce u r1 = (p2, b, r2)"
    by (cases "prey_reproduce u r1")
  from k rp obtain rest' where
    "prey_loop rest gf gp qs (new @ b) fs1 r2 = Inr (rest', new', fs', r')" "ps' = p2 # rest'"
    by (auto simp: ebind_Inr_iff)
  with up rp show ?thesis by blast
qed

lemma prey_loop_shape:
  assumes "prey_loop ps gf gp qs new fs r = Inr (ps', new', fs', r')"
  shows "\<exists>us born. length us = length ps
     \<and> (\<forall>i<length ps. \<exists>fs1 r1 fs2 r2. Prey_update (ps ! i) gf fs1 gp qs r1 = Inr (us ! i, fs2, r2))
     \<and> ps' = map (\<lambda>u. if energy u > REPRO_COST_PREY + 50
                        then u\<lparr>energy := energy u - REPRO_COST_PREY\<rparr> else u) us
     \<and> new' = new @ born
     \<and> map pos born = map pos (filter (\<lambda>u. energy u > REPRO_COST_PREY + 50) us)
     \<and> (\<forall>c \<in> set born. active c \<and> acc c = (0, 0) \<and> energy c = 150)"
  using assms
proof (induction ps arbitrary: new fs r ps' new' fs' r')
  case Nil
  then show ?case by simp
next
  case (Cons p rest)
  from prey_loop_Cons_Inr [OF Cons.prems] obtain u fs1 r1 p2 b r2 rest' where
    up: "Prey_update p gf fs gp qs r = Inr (u, fs1, r1)" and
    rp: "prey_reproduce u r1 = (p2, b, r2)" and
    lp: "prey_loop rest gf gp qs (new @ b) fs1 r2 = Inr (rest', new', fs', r')" and
    ps': "ps' = p2 # rest'"
    by blast
  from Cons.IH [OF lp] obtain us born where
    ih: "length us = length rest"
      "\<forall>i<length rest. \<exists>fs1 r1 fs2 r2. Prey_update (rest ! i) gf fs1 gp qs r1 = Inr (us ! i, fs2, r2)"
      "rest' = map (\<lambda>u. if energy u > REPRO_COST_PREY + 50
                        then u\<lparr>energy := energy u - REPRO_COST_PREY\<rparr> else u) us"
      "new' = (new @ b) @ born"
      "map pos born = map pos (filter (\<lambda>u. energy u > REPRO_COST_PREY + 50) us)"
      "\<forall>c \<in> set born. active c \<and> acc c = (0, 0) \<and> energy c = 150"
    by blast
  note rc = prey_reproduce_cases [OF rp]
  show ?case
  proof (rule exI [of _ "u # us"], rule exI [of _ "b @ born"], intro conjI)
    show "length (u # us) = length (p # rest)" using ih(1) by simp
    show "\<forall>i<length (p # rest). \<exists>fs1 r1 fs2 r2.
        Prey_update ((p # rest) ! i) gf fs1 gp qs r1 = Inr ((u # us) ! i, fs2, r2)"
    proof (intro allI impI)
      fix i assume "i < length (p # rest)"
      then show "\<exists>fs1 r1 fs2 r2.
        Prey_update ((p # rest) ! i) gf fs1 gp qs r1 = Inr ((u # us) ! i, fs2, r2)"
        using up ih(2) by (cases i) auto
    qed
    show "ps' = map (\<lambda>u. if energy u > REPRO_COST_PREY + 50
                        then u\<lparr>energy := energy u - REPRO_COST_PREY\<rparr> else u) (u # us)"
      using rc ih(3) by (auto simp: ps' split: if_splits)
    show "new' = new @ b @ born" using ih(4) by simp
    show "map pos (b @ born) = map pos (filter (\<lambda>u. energy u > REPRO_COST_PREY + 50) (u # us))"
      using rc ih(5) by (auto split: if_splits)
    show "\<forall>c \<in> set (b @ born). active c \<and> acc c = (0, 0) \<and> energy c = 150"
      using rc ih(6) by (auto split: if_splits)
  qed
qed

lemma pred_loop_Cons_Inr:
  assumes "pred_loop (p # rest) gy new ys r = Inr (ps', new', ys', r')"
  shows "\<exists>u ys1 r1 p2 b r2 rest'.
      Predator_update p gy ys r = Inr (u, ys1, r1)
    \<and> pred_reproduce u r1 = (p2, b, r2)
    \<and> pred_loop rest gy (new @ b) ys1 r2 = Inr (rest', new', ys', r')
    \<and> ps' = p2 # rest'"
proof -
  from assms obtain u ys1 r1 where
    up: "Predator_update p gy ys r = Inr (u, ys1, r1)" and
    k: "(case pred_reproduce u r1 of (p2, born, r2) \<Rightarrow>
          ebind (pred_loop rest gy (new @ born) ys1 r2) (\<lambda>(rest', new_preds', ys', r').
            Inr (p2 # rest', new_preds', ys', r'))) = Inr (ps', new', ys', r')"
    by (auto simp: ebind_Inr_iff)
  obtain p2 b r2 where rp: "pred_reproduce u r1 = (p2, b, r2)"
    by (cases "pred_reproduce u r1")
  from k rp obtain rest' where
    "pred_loop rest gy (new @ b) ys1 r2 = Inr (rest', new', ys', r')" "ps' = p2 # rest'"
    by (auto simp: ebind_Inr_iff)
  with up rp show ?thesis by blast
qed

lemma pred_loop_shape:
  assumes "pred_loop ps gy new ys r = Inr (ps', new', ys', r')"
  shows "\<exists>us born. length us = length ps
     \<and> (\<forall>i<length ps. \<exists>ys1 r1 ys2 r2. Predator_update (ps ! i) gy ys1 r1 = Inr (us ! i, ys2, r2))
     \<and> ps' = map (\<lambda>u. if energy u > REPRO_COST_PRED + 50
                        then u\<lparr>energy := energy u - REPRO_COST_PRED\<rparr> else u) us
     \<and> new' = new @ born
     \<and> map pos born = map pos (filter (\<lambda>u. energy u > REPRO_COST_PRED + 50) us)
     \<and> (\<forall>c \<in> set born. active c \<and> acc c = (0, 0) \<and> energy c = 300)"
  using assms
proof (induction ps arbitrary: new ys r ps' new' ys' r')
  case Nil
  then show ?case by simp
next
  case (Cons p rest)
  from pred_loop_Cons_Inr [OF Cons.prems] obtain u ys1 r1 p2 b r2 rest' where
    up: "Predator_update p gy ys r = Inr (u, ys1, r1)" and
    rp: "pred_reproduce u r1 = (p2, b, r2)" and
    lp: "pred_loop rest gy (new @ b) ys1 r2 = Inr (rest', new', ys', r')" and
    ps': "ps' = p2 # rest'"
    by blast
  from Cons.IH [OF lp] obtain us born where
    ih: "length us = length rest"
      "\<forall>i<length rest. \<exists>ys1 r1 ys2 r2. Predator_update (rest ! i) gy ys1 r1 = Inr (us ! i, ys2, r2)"
      "rest' = map (\<lambda>u. if energy u > REPRO_COST_PRED + 50
                        then u\<lparr>energy := energy u - REPRO_COST_PRED\<rparr> else u) us"
      "new' = (new @ b) @ born"
      "map pos born = map pos (filter (\<lambda>u. energy u > REPRO_COST_PRED + 50) us)"
      "\<forall>c \<in> set born. active c \<and> acc c = (0, 0) \<and> energy c = 300"
    by blast
  note rc = pred_reproduce_cases [OF rp]
  show ?case
  proof (rule exI [of _ "u # us"], rule exI [of _ "b @ born"], intro conjI)
    show "length (u # us) = length (p # rest)" using ih(1) by simp
    show "\<forall>i<length (p # rest). \<exists>ys1 r1 ys2 r2.
        Predator_update ((p # rest) ! i) gy ys1 r1 = Inr ((u # us) ! i, ys2, r2)"
    proof (intro allI impI)
      fix i assume "i < length (p # rest)"
      then show "\<exists>ys1 r1 ys2 r2.
        Predator_update ((p # rest) ! i) gy ys1 r1 = Inr ((u # us) ! i, ys2, r2)"
        using up ih(2) by (cases i) auto
    qed
    show "ps' = map (\<lambda>u. if energy u > REPRO_COST_PRED + 50
                        then u\<lparr>energy := energy u - REPRO_COST_PRED\<rparr> else u) (u # us)"
      using rc ih(3) by (auto simp: ps' split: if_splits)
    show "new' = new @ b @ born" using ih(4) by simp
    show "map pos (b @ born) = map pos (filter (\<lambda>u. energy u > REPRO_COST_PRED + 50) (u # us))"
      using rc ih(5) by (auto split: if_splits)
    show "\<forall>c \<in> set (b @ born). active c \<and> acc c = (0, 0) \<and> energy c = 300"
      using rc ih(6) by (auto split: if_splits)
  qed
qed

subsection \<open>Grid references and target selection\<close>

lemma bucket_add_all:
  "bucket (add_all es cells) idx =
     bucket cells idx @ map snd (filter (\<lambda>(p, obj). cell_of p = idx) es)"
proof (induction es arbitrary: cells)
  case Nil
  then show ?case by (simp add: add_all_def)
next
  case (Cons e es)
  obtain p obj where e: "e = (p, obj)" by (cases e)
  have "add_all (e # es) cells = add_all es (SpatialGrid_add p obj cells)"
    by (simp add: add_all_def e)
  then show ?case
    using Cons.IH [of "SpatialGrid_add p obj cells"]
    by (auto simp: e bucket_add)
qed

lemma bucket_clear [simp]: "bucket SpatialGrid_clear idx = []"
  by (simp add: bucket_def SpatialGrid_clear_def)

lemma register_wf: "grid_wf (register xs) (length xs)"
  by (auto simp: grid_wf_def register_def bucket_add_all in_set_enumerate_eq)

lemma grid_wf_mono: "grid_wf g n \<Longrightarrow> n \<le> m \<Longrightarrow> grid_wf g m"
  by (fastforce simp: grid_wf_def)

lemma grid_wf_nearby: "grid_wf g n \<Longrightarrow> i \<in> set (get_nearby g p r) \<Longrightarrow> i < n"
  by (auto simp: grid_wf_def get_nearby_square)

lemma closest_loop_props:
  assumes "closest_loop chk p objs js m c = (m', c')"
  shows "m' \<le> m
    \<and> (\<forall>j \<in> set js. (chk \<longrightarrow> active (objs ! j)) \<longrightarrow> m' \<le> distance_to p (pos (objs ! j)))
    \<and> ((c' = c \<and> m' = m)
        \<or> (\<exists>i \<in> set js. c' = Some i \<and> (chk \<longrightarrow> active (objs ! i))
              \<and> m' = distance_to p (pos (objs ! i)) \<and> m' < m))"
  using assms
proof (induction js arbitrary: m c)
  case Nil
  then show ?case by simp
next
  case (Cons i js)
  show ?case
  proof (cases "chk \<and> \<not> active (objs ! i)")
    case True
    with Cons.prems have "closest_loop chk p objs js m c = (m', c')" by simp
    from Cons.IH [OF this] True show ?thesis by auto
  next
    case False
    show ?thesis
    proof (cases "distance_to p (pos (objs ! i)) < m")
      case True
      with False Cons.prems
      have "closest_loop chk p objs js (distance_to p (pos (objs ! i))) (Some i) = (m', c')"
        by (auto simp: Let_def split: if_splits)
      from Cons.IH [OF this] False True show ?thesis by fastforce
    next
      case nl: False
      with False Cons.prems have "closest_loop chk p objs js m c = (m', c')"
        by (auto simp: Let_def split: if_splits)
      from Cons.IH [OF this] False nl show ?thesis by fastforce
    qed
  qed
qed

subsection \<open>The behaviour of prey and predators\<close>

lemma vadd_zero [simp]: "vadd (0, 0) f = f"
  by (cases f) simp

lemma update_physics_fields:
  "update_physics a = Inr a' \<Longrightarrow>
     energy a' = energy a \<and> dna a' = dna a \<and> active a' = active a \<and> max_energy a' = max_energy a"
  by (auto dest!: update_physics_Inr)

lemma Prey_wander_Inr:
  "Prey_wander force self r = Inr (force', self', r') \<Longrightarrow>
     energy self' = energy self \<and> dna self' = dna self \<and> active self' = active self
     \<and> max_energy self' = max_energy self \<and> pos self' = pos self \<and> vel self' = vel self
     \<and> acc self' = acc self
     \<and> (\<not> vlength force < 1 / 10 \<longrightarrow> force' = force \<and> self' = self \<and> r' = r)"
  by (auto simp: Prey_wander_def Let_def ebind_Inr_iff uniform_eq split: if_splits)


lemma Prey_update_Inr:
  assumes "Prey_update self gf fd gp qs r = Inr (self', fd', r')"
  shows "\<exists>force self2 force' self3.
      Prey_flee_or_eat (self\<lparr>energy := prey_metabolised self\<rparr>) fd
          (get_nearby gf (pos self) 1) qs (get_nearby gp (pos self) 1) = Inr (force, self2, fd')
    \<and> Prey_wander force self2 r = Inr (force', self3, r')
    \<and> update_physics (self3\<lparr>acc := vadd (acc self3) force'\<rparr>) = Inr self'"
  using assms
  by (auto simp: Prey_update_def Let_def ebind_Inr_iff prey_metabolised_def)


lemma Predator_hunt_or_patrol_Inr:
  assumes "Predator_hunt_or_patrol self ys nb r = Inr (force, self', ys', r')"
  shows "\<exists>sense. dna_get (dna self) ''sense'' = Inr sense \<and>
    (if \<exists>i \<in> set nb. active (ys ! i) \<and> distance_to (pos self) (pos (ys ! i)) < sense
     then (\<exists>c \<in> set nb. active (ys ! c) \<and> distance_to (pos self) (pos (ys ! c)) < sense
              \<and> (\<forall>j \<in> set nb. active (ys ! j) \<longrightarrow>
                     distance_to (pos self) (pos (ys ! c)) \<le> distance_to (pos self) (pos (ys ! j)))
              \<and> steer self (pos (ys ! c)) (12 / 10) = Inr force \<and> r' = r
              \<and> (if distance_to (pos self) (pos (ys ! c)) < 12
                  then self' = self\<lparr>energy := energy self + 120\<rparr>
                     \<and> ys' = ys[c := (ys ! c)\<lparr>active := False\<rparr>]
                  else self' = self \<and> ys' = ys))
     else ys' = ys \<and> energy self' = energy self \<and> pos self' = pos self \<and> dna self' = dna self
        \<and> active self' = active self)"
proof -
  from assms obtain sense where s: "dna_get (dna self) ''sense'' = Inr sense"
    by (auto simp: Predator_hunt_or_patrol_def ebind_Inr_iff)
  obtain m c where l: "closest_loop True (pos self) ys nb sense None = (m, c)"
    by (cases "closest_loop True (pos self) ys nb sense None")
  note p = closest_loop_props [OF l]
  show ?thesis
  proof (cases c)
    case None
    with p have "\<not> (\<exists>i \<in> set nb. active (ys ! i) \<and> distance_to (pos self) (pos (ys ! i)) < sense)"
      by fastforce
    moreover from assms s l None
    have "ys' = ys \<and> energy self' = energy self \<and> pos self' = pos self \<and> dna self' = dna self
        \<and> active self' = active self"
      by (auto simp: Predator_hunt_or_patrol_def uniform_eq Let_def)
    ultimately show ?thesis using s by auto
  next
    case (Some i)
    from p Some have i: "i \<in> set nb" "active (ys ! i)"
      "m = distance_to (pos self) (pos (ys ! i))" "m < sense"
      "\<forall>j \<in> set nb. active (ys ! j) \<longrightarrow> m \<le> distance_to (pos self) (pos (ys ! j))"
      by auto
    from assms s l Some have
      st: "steer self (pos (ys ! i)) (12 / 10) = Inr force" "r' = r"
      and k: "if m < 12 then self' = self\<lparr>energy := energy self + 120\<rparr>
                     \<and> ys' = ys[i := (ys ! i)\<lparr>active := False\<rparr>]
                  else self' = self \<and> ys' = ys"
      by (auto simp: Predator_hunt_or_patrol_def ebind_Inr_iff split: if_splits)
    have ex: "\<exists>i \<in> set nb. active (ys ! i) \<and> distance_to (pos self) (pos (ys ! i)) < sense"
      using i by blast
    have "\<exists>c \<in> set nb. active (ys ! c) \<and> distance_to (pos self) (pos (ys ! c)) < sense
              \<and> (\<forall>j \<in> set nb. active (ys ! j) \<longrightarrow>
                     distance_to (pos self) (pos (ys ! c)) \<le> distance_to (pos self) (pos (ys ! j)))
              \<and> steer self (pos (ys ! c)) (12 / 10) = Inr force \<and> r' = r
              \<and> (if distance_to (pos self) (pos (ys ! c)) < 12
                  then self' = self\<lparr>energy := energy self + 120\<rparr>
                     \<and> ys' = ys[c := (ys ! c)\<lparr>active := False\<rparr>]
                  else self' = self \<and> ys' = ys)"
      using i st k by (intro bexI [of _ i]) auto
    with s ex show ?thesis by auto
  qed
qed

lemma Predator_update_Inr:
  assumes "Predator_update self gy ys r = Inr (self', ys', r')"
  shows "\<exists>force self3.
      Predator_hunt_or_patrol (self\<lparr>energy := pred_metabolised self\<rparr>) ys
          (get_nearby gy (pos self) 2) r = Inr (force, self3, ys', r')
    \<and> update_physics (self3\<lparr>acc := vadd (acc self3) force\<rparr>) = Inr self'"
  using assms
  by (auto simp: Predator_update_def Let_def ebind_Inr_iff pred_metabolised_def)

lemma Predator_update_energy_prey:
  assumes "Predator_update self gy ys r = Inr (self', ys', r')"
  shows "(energy self' = pred_metabolised self \<and> ys' = ys)
    \<or> (\<exists>c \<in> set (get_nearby gy (pos self) 2). active (ys ! c)
          \<and> energy self' = pred_metabolised self + 120
          \<and> ys' = ys[c := (ys ! c)\<lparr>active := False\<rparr>])"
proof -
  from Predator_update_Inr [OF assms] obtain force self3 where
    h: "Predator_hunt_or_patrol (self\<lparr>energy := pred_metabolised self\<rparr>) ys
          (get_nearby gy (pos self) 2) r = Inr (force, self3, ys', r')" and
    u: "update_physics (self3\<lparr>acc := vadd (acc self3) force\<rparr>) = Inr self'"
    by blast
  have e: "energy self' = energy self3"
    using update_physics_fields [OF u] by simp
  from Predator_hunt_or_patrol_Inr [OF h] show ?thesis
    unfolding e by (auto split: if_splits)
qed

subsection \<open>Evaluating the examples\<close>

lemma bucket_register:
  "bucket (register xs) idx = map fst (filter (\<lambda>(i, e). cell_of (pos e) = idx) (enumerate 0 xs))"
proof -
  have "map snd (filter (\<lambda>(p, obj). cell_of p = idx) (map (\<lambda>(i, e). (pos e, i)) ys))
      = map fst (filter (\<lambda>(i, e). cell_of (pos e) = idx) ys)" for ys :: "(nat \<times> 'a Entity_scheme) list"
    by (induction ys) auto
  then show ?thesis
    by (simp add: register_def bucket_add_all)
qed

lemma get_nearby_register:
  "get_nearby (register xs) p r =
     concat (map (\<lambda>idx. map fst (filter (\<lambda>(i, e). cell_of (pos e) = idx) (enumerate 0 xs)))
                 (square (cell_of p) r))"
proof -
  have "bucket (register xs) =
    (\<lambda>idx. map fst (filter (\<lambda>(i, e). cell_of (pos e) = idx) (enumerate 0 xs)))"
    by (rule ext) (rule bucket_register)
  then show ?thesis
    by (simp add: get_nearby_square)
qed

lemma sqrt_25: "sqrt 25 = 5"
  by (rule sqrt_eqI) simp_all

lemma sqrt_441_25: "sqrt (441 / 25) = 21 / 5"
  by (rule sqrt_eqI) simp_all

lemma sqrt_81_625: "sqrt (81 / 625) = 9 / 25"
  by (rule sqrt_eqI) simp_all

lemma sqrt_49_4: "sqrt (49 / 4) = 7 / 2"
  by (rule sqrt_eqI) simp_all

lemma sqrt_9_16: "sqrt (9 / 16) = 3 / 4"
  by (rule sqrt_eqI) simp_all

lemmas example_defs = prey_at_def predator_at_def PREY_DNA_def PRED_DNA_def Entity_init_def
  rng_half_def CELL_SIZE_def WORLD_W_def WORLD_H_def VECTOR_EPSILON_def
  PREY_METABOLISM_def PRED_METABOLISM_def REPRO_COST_PREY_def REPRO_COST_PRED_def

lemmas example_sqrts = sqrt_25 sqrt_441_25 sqrt_81_625 sqrt_49_4 sqrt_9_16

lemma nearby_B: "get_nearby (register [prey_B]) (0, 0) 2 = [0]"
  by (simp add: get_nearby_register square_def prey_B_def example_defs upto_rec1)

lemma nearby_A: "get_nearby (register [food_A]) (0, 0) 1 = [0]"
  by (simp add: get_nearby_register square_def food_A_def example_defs upto_rec1)

lemma nearby_none: "get_nearby (register []) p r = []"
  by (simp add: get_nearby_register)

lemma prey_B_fields: "pos prey_B = (3, 4)" "active prey_B"
  by (simp_all add: prey_B_def prey_at_def)

lemma food_A_fields: "pos food_A = (3, 4)" "active food_A"
  by (simp_all add: food_A_def Entity_init_def)

lemma Predator_update_B:
  "Predator_update pred_B (register [prey_B]) [prey_B] rng_half
     = Inr (pred_B', [prey_B\<lparr>active := False\<rparr>], rng_half)"
  by (simp add: Predator_update_def Let_def pred_B_def pred_B'_def nearby_B prey_B_fields
      predator_at_def PRED_DNA_def PRED_METABOLISM_def VECTOR_EPSILON_def WORLD_W_def WORLD_H_def
      Predator_hunt_or_patrol_def dna_get_def distance_to_def vlength_def
      steer_def scale_to_length_def update_physics_def edges_def example_sqrts)

lemma Prey_update_A:
  "Prey_update prey_A (register [food_A]) [food_A] (register []) [] rng_half
     = Inr (prey_A', [food_A\<lparr>active := False\<rparr>], rng_half)"
  by (simp add: Prey_update_def Let_def prey_A_def prey_A'_def nearby_none nearby_A food_A_fields
      prey_at_def PREY_DNA_def PREY_METABOLISM_def VECTOR_EPSILON_def WORLD_W_def WORLD_H_def
      Prey_flee_or_eat_def Prey_wander_def dna_get_def distance_to_def vlength_def
      steer_def scale_to_length_def update_physics_def edges_def example_sqrts)

lemma prey_reproduce_A: "prey_reproduce prey_A' rng_half = (prey_A'\<lparr>energy := 119 / 2\<rparr>, [child_A], rng_half)"
  by (simp add: prey_reproduce_def prey_A'_def child_A_def example_defs uniform_eq
        Prey_init_def Agent_init_def dna_or_default_def Let_def)

lemma pred_reproduce_B: "pred_reproduce pred_B' rng_half = (pred_B'\<lparr>energy := 846 / 5\<rparr>, [child_B], rng_half)"
  by (simp add: pred_reproduce_def pred_B'_def child_B_def example_defs uniform_eq
        Predator_init_def Agent_init_def dna_or_default_def Let_def)

lemma prey_loop_A:
  "prey_loop [prey_A] (register [food_A]) (register []) [] [] [food_A] rng_half
     = Inr ([prey_A'\<lparr>energy := 119 / 2\<rparr>], [child_A], [food_A\<lparr>active := False\<rparr>], rng_half)"
  by (simp add: Prey_update_A prey_reproduce_A)

lemma pred_loop_B:
  "pred_loop [pred_B] (register [prey_B]) [] [prey_B] rng_half
     = Inr ([pred_B'\<lparr>energy := 846 / 5\<rparr>], [child_B], [prey_B\<lparr>active := False\<rparr>], rng_half)"
  by (simp add: Predator_update_B pred_reproduce_B)

subsection \<open>Energy\<close>


lemma prune_lists:
  "food (prune s) = filter active (food s)"
  "prey (prune s) = filter alive (prey s)"
  "preds (prune s) = filter alive (preds s)"
  "state (prune s) = state s"
  by (simp_all add: prune_def Let_def)




subsection \<open>Consumption\<close>

lemma closest_loop_active:
  assumes "closest_loop True p objs js m None = (d, Some c)"
  shows "c \<in> set js \<and> active (objs ! c)"
  using closest_loop_props [OF assms] by auto

lemma Prey_flee_or_eat_target:
  assumes "Prey_flee_or_eat self fd nf qs np = Inr (force, self', fd')"
  shows "(self' = self \<and> fd' = fd)
    \<or> (\<exists>sense d c. dna_get (dna self) ''sense'' = Inr sense
          \<and> closest_loop True (pos self) fd nf sense None = (d, Some c) \<and> d < 10
          \<and> self' = self\<lparr>energy := energy self + 50\<rparr>
          \<and> fd' = fd[c := (fd ! c)\<lparr>active := False\<rparr>])"
proof -
  from assms obtain sense where
    s: "dna_get (dna self) ''sense'' = Inr sense"
    by (auto simp: Prey_flee_or_eat_def ebind_Inr_iff)
  obtain mp cp where lp: "closest_loop False (pos self) qs np sense None = (mp, cp)"
    by (cases "closest_loop False (pos self) qs np sense None")
  obtain mf cf where lf: "closest_loop True (pos self) fd nf sense None = (mf, cf)"
    by (cases "closest_loop True (pos self) fd nf sense None")
  show ?thesis
  proof (cases cp)
    case (Some i)
    with assms s lp have "self' = self \<and> fd' = fd"
      by (auto simp: Prey_flee_or_eat_def ebind_Inr_iff)
    then show ?thesis by simp
  next
    case None
    show ?thesis
    proof (cases "energy self < max_energy self")
      case False
      with assms s lp None show ?thesis
        by (auto simp: Prey_flee_or_eat_def)
    next
      case True
      show ?thesis
      proof (cases cf)
        case n2: None
        with assms s lp None True lf show ?thesis
          by (auto simp: Prey_flee_or_eat_def)
      next
        case (Some c)
        with assms s lp None True lf have
          "if mf < 10 then self' = self\<lparr>energy := energy self + 50\<rparr>
                     \<and> fd' = fd[c := (fd ! c)\<lparr>active := False\<rparr>]
           else self' = self \<and> fd' = fd"
          by (auto simp: Prey_flee_or_eat_def ebind_Inr_iff split: if_splits)
        with s lf Some show ?thesis
          by (cases "mf < 10") auto
      qed
    qed
  qed
qed

lemma Prey_update_target:
  assumes "Prey_update p gf fd gp qs r = Inr (u, fd', r')" and "grid_wf gf (length fd)"
  shows "(energy u = prey_metabolised p \<and> fd' = fd)
    \<or> (\<exists>c. eats p gf fd c \<and> c < length fd \<and> active (fd ! c)
          \<and> energy u = prey_metabolised p + 50
          \<and> fd' = fd[c := (fd ! c)\<lparr>active := False\<rparr>])"
proof -
  from Prey_update_Inr [OF assms(1)] obtain force self2 force' self3 where
    fe: "Prey_flee_or_eat (p\<lparr>energy := prey_metabolised p\<rparr>) fd
          (get_nearby gf (pos p) 1) qs (get_nearby gp (pos p) 1) = Inr (force, self2, fd')" and
    w: "Prey_wander force self2 r = Inr (force', self3, r')" and
    up: "update_physics (self3\<lparr>acc := vadd (acc self3) force'\<rparr>) = Inr u"
    by blast
  have e: "energy u = energy self2"
    using Prey_wander_Inr [OF w] update_physics_fields [OF up] by simp
  from Prey_flee_or_eat_target [OF fe] show ?thesis
  proof
    assume "self2 = p\<lparr>energy := prey_metabolised p\<rparr> \<and> fd' = fd"
    with e show ?thesis by simp
  next
    assume "\<exists>sense d c. dna_get (dna (p\<lparr>energy := prey_metabolised p\<rparr>)) ''sense'' = Inr sense
          \<and> closest_loop True (pos (p\<lparr>energy := prey_metabolised p\<rparr>)) fd
               (get_nearby gf (pos p) 1) sense None = (d, Some c) \<and> d < 10
          \<and> self2 = p\<lparr>energy := prey_metabolised p\<rparr>
                      \<lparr>energy := energy (p\<lparr>energy := prey_metabolised p\<rparr>) + 50\<rparr>
          \<and> fd' = fd[c := (fd ! c)\<lparr>active := False\<rparr>]"
    then obtain sense d c where
      k: "dna_get (dna p) ''sense'' = Inr sense"
        "closest_loop True (pos p) fd (get_nearby gf (pos p) 1) sense None = (d, Some c)"
        "d < 10" "energy self2 = prey_metabolised p + 50"
        "fd' = fd[c := (fd ! c)\<lparr>active := False\<rparr>]"
      by auto
    from closest_loop_active [OF k(2)]
    have ca: "c \<in> set (get_nearby gf (pos p) 1)" "active (fd ! c)" by simp_all
    from grid_wf_nearby [OF assms(2) ca(1)] ca(2)
    have "c < length fd" "active (fd ! c)" by simp_all
    moreover have "eats p gf fd c"
      unfolding eats_def using k(1,2,3) by blast
    ultimately show ?thesis using k(4,5) e by auto
  qed
qed

lemma Predator_hunt_or_patrol_target:
  assumes "Predator_hunt_or_patrol self ys nb r = Inr (force, self', ys', r')"
  shows "(energy self' = energy self \<and> ys' = ys)
    \<or> (\<exists>sense d c. dna_get (dna self) ''sense'' = Inr sense
          \<and> closest_loop True (pos self) ys nb sense None = (d, Some c) \<and> d < 12
          \<and> energy self' = energy self + 120
          \<and> ys' = ys[c := (ys ! c)\<lparr>active := False\<rparr>])"
proof -
  from assms obtain sense where s: "dna_get (dna self) ''sense'' = Inr sense"
    by (auto simp: Predator_hunt_or_patrol_def ebind_Inr_iff)
  obtain m c where l: "closest_loop True (pos self) ys nb sense None = (m, c)"
    by (cases "closest_loop True (pos self) ys nb sense None")
  show ?thesis
  proof (cases c)
    case None
    with assms s l have "energy self' = energy self \<and> ys' = ys"
      by (auto simp: Predator_hunt_or_patrol_def uniform_eq Let_def)
    then show ?thesis by simp
  next
    case (Some i)
    with assms s l have
      "if m < 12 then self' = self\<lparr>energy := energy self + 120\<rparr>
                     \<and> ys' = ys[i := (ys ! i)\<lparr>active := False\<rparr>]
       else self' = self \<and> ys' = ys"
      by (auto simp: Predator_hunt_or_patrol_def ebind_Inr_iff split: if_splits)
    with s l Some show ?thesis
      by (cases "m < 12") auto
  qed
qed

lemma Predator_update_target:
  assumes "Predator_update p gy ys r = Inr (u, ys', r')" and "grid_wf gy (length ys)"
  shows "(energy u = pred_metabolised p \<and> ys' = ys)
    \<or> (\<exists>c. catches p gy ys c \<and> c < length ys \<and> active (ys ! c)
          \<and> energy u = pred_metabolised p + 120
          \<and> ys' = ys[c := (ys ! c)\<lparr>active := False\<rparr>])"
proof -
  from Predator_update_Inr [OF assms(1)] obtain force self3 where
    h: "Predator_hunt_or_patrol (p\<lparr>energy := pred_metabolised p\<rparr>) ys
          (get_nearby gy (pos p) 2) r = Inr (force, self3, ys', r')" and
    up: "update_physics (self3\<lparr>acc := vadd (acc self3) force\<rparr>) = Inr u"
    by blast
  have e: "energy u = energy self3"
    using update_physics_fields [OF up] by simp
  from Predator_hunt_or_patrol_target [OF h] show ?thesis
  proof
    assume "energy self3 = energy (p\<lparr>energy := pred_metabolised p\<rparr>) \<and> ys' = ys"
    with e show ?thesis by simp
  next
    assume "\<exists>sense d c. dna_get (dna (p\<lparr>energy := pred_metabolised p\<rparr>)) ''sense'' = Inr sense
          \<and> closest_loop True (pos (p\<lparr>energy := pred_metabolised p\<rparr>)) ys
               (get_nearby gy (pos p) 2) sense None = (d, Some c) \<and> d < 12
          \<and> energy self3 = energy (p\<lparr>energy := pred_metabolised p\<rparr>) + 120
          \<and> ys' = ys[c := (ys ! c)\<lparr>active := False\<rparr>]"
    then obtain sense d c where
      k: "dna_get (dna p) ''sense'' = Inr sense"
        "closest_loop True (pos p) ys (get_nearby gy (pos p) 2) sense None = (d, Some c)"
        "d < 12" "energy self3 = pred_metabolised p + 120"
        "ys' = ys[c := (ys ! c)\<lparr>active := False\<rparr>]"
      by auto
    from closest_loop_active [OF k(2)]
    have ca: "c \<in> set (get_nearby gy (pos p) 2)" "active (ys ! c)" by simp_all
    from grid_wf_nearby [OF assms(2) ca(1)] ca(2)
    have "c < length ys" "active (ys ! c)" by simp_all
    moreover have "catches p gy ys c"
      unfolding catches_def using k(1,2,3) by blast
    ultimately show ?thesis using k(4,5) e by auto
  qed
qed

lemma Prey_update_target_facts:
  assumes "Prey_update p gf fd gp qs r = Inr (u, fd', r')" and "grid_wf gf (length fd)"
  shows "length fd' = length fd"
    and "\<forall>j<length fd. \<not> active (fd ! j) \<longrightarrow> fd' ! j = fd ! j"
    and "\<forall>j. active (fd' ! j) \<longrightarrow> fd' ! j = fd ! j"
proof -
  note s = Prey_update_target [OF assms]
  show "length fd' = length fd" using s by auto
  show "\<forall>j<length fd. \<not> active (fd ! j) \<longrightarrow> fd' ! j = fd ! j"
    using s by (auto simp: nth_list_update)
  show "\<forall>j. active (fd' ! j) \<longrightarrow> fd' ! j = fd ! j"
  proof (intro allI impI)
    fix j assume a: "active (fd' ! j)"
    from s show "fd' ! j = fd ! j"
    proof
      assume "energy u = prey_metabolised p \<and> fd' = fd"
      then show ?thesis by simp
    next
      assume "\<exists>c. eats p gf fd c \<and> c < length fd \<and> active (fd ! c)
          \<and> energy u = prey_metabolised p + 50
          \<and> fd' = fd[c := (fd ! c)\<lparr>active := False\<rparr>]"
      then obtain c where c: "c < length fd" "fd' = fd[c := (fd ! c)\<lparr>active := False\<rparr>]"
        by blast
      with a have "j \<noteq> c" by auto
      with c show ?thesis by simp
    qed
  qed
qed

lemma prey_loop_chain:
  assumes "prey_loop ps gf gp qs new fs r = Inr (ps', new', fs', r')" and "grid_wf gf (length fs)"
  shows "\<exists>us fss rs ts. length us = length ps \<and> length ts = length ps
     \<and> length fss = Suc (length ps) \<and> length rs = Suc (length ps)
     \<and> fss ! 0 = fs \<and> fss ! length ps = fs' \<and> rs ! 0 = r \<and> rs ! length ps = r'
     \<and> (\<forall>i<length ps. \<exists>r2.
            Prey_update (ps ! i) gf (fss ! i) gp qs (rs ! i) = Inr (us ! i, fss ! Suc i, r2)
          \<and> rs ! Suc i = snd (snd (prey_reproduce (us ! i) r2)))
     \<and> (\<forall>i<length ps.
           case ts ! i of
             None \<Rightarrow> energy (us ! i) = prey_metabolised (ps ! i) \<and> fss ! Suc i = fss ! i
           | Some c \<Rightarrow> eats (ps ! i) gf (fss ! i) c \<and> c < length fs \<and> active (fss ! i ! c)
               \<and> energy (us ! i) = prey_metabolised (ps ! i) + 50
               \<and> fss ! Suc i = (fss ! i)[c := (fss ! i ! c)\<lparr>active := False\<rparr>])
     \<and> (\<forall>i<length ps. \<forall>j<length ps. i < j \<longrightarrow> ts ! i \<noteq> None \<longrightarrow> ts ! j \<noteq> ts ! i)
     \<and> (\<forall>i<length ps. \<forall>c. ts ! i = Some c \<longrightarrow> active (fs ! c) \<and> \<not> active (fs' ! c))
     \<and> length fs' = length fs
     \<and> (\<forall>j<length fs. \<not> active (fs ! j) \<longrightarrow> fs' ! j = fs ! j)"
  using assms
proof (induction ps arbitrary: new fs r ps' new' fs' r')
  case Nil
  then have "fs' = fs" "r' = r" by simp_all
  then show ?case
    by (intro exI [of _ "[]"] exI [of _ "[fs]"] exI [of _ "[r]"]) simp
next
  case (Cons p rest)
  from prey_loop_Cons_Inr [OF Cons.prems(1)] obtain u fs1 r1 p2 b r2 rest' where
    up: "Prey_update p gf fs gp qs r = Inr (u, fs1, r1)" and
    rp: "prey_reproduce u r1 = (p2, b, r2)" and
    lp: "prey_loop rest gf gp qs (new @ b) fs1 r2 = Inr (rest', new', fs', r')"
    by blast
  note st = Prey_update_target [OF up Cons.prems(2)]
  note sf = Prey_update_target_facts [OF up Cons.prems(2)]
  have wf1: "grid_wf gf (length fs1)" using sf(1) Cons.prems(2) by simp
  from Cons.IH [OF lp wf1] obtain us fss rs ts where
    len: "length us = length rest" "length ts = length rest"
      "length fss = Suc (length rest)" "length rs = Suc (length rest)" and
    ends: "fss ! 0 = fs1" "fss ! length rest = fs'" "rs ! 0 = r2" "rs ! length rest = r'" and
    run: "\<forall>i<length rest. \<exists>r2.
            Prey_update (rest ! i) gf (fss ! i) gp qs (rs ! i) = Inr (us ! i, fss ! Suc i, r2)
          \<and> rs ! Suc i = snd (snd (prey_reproduce (us ! i) r2))" and
    tgt: "\<forall>i<length rest.
           case ts ! i of
             None \<Rightarrow> energy (us ! i) = prey_metabolised (rest ! i) \<and> fss ! Suc i = fss ! i
           | Some c \<Rightarrow> eats (rest ! i) gf (fss ! i) c \<and> c < length fs1 \<and> active (fss ! i ! c)
               \<and> energy (us ! i) = prey_metabolised (rest ! i) + 50
               \<and> fss ! Suc i = (fss ! i)[c := (fss ! i ! c)\<lparr>active := False\<rparr>]" and
    dis: "\<forall>i<length rest. \<forall>j<length rest. i < j \<longrightarrow> ts ! i \<noteq> None \<longrightarrow> ts ! j \<noteq> ts ! i" and
    act: "\<forall>i<length rest. \<forall>c. ts ! i = Some c \<longrightarrow> active (fs1 ! c) \<and> \<not> active (fs' ! c)" and
    same: "length fs' = length fs1" "\<forall>j<length fs1. \<not> active (fs1 ! j) \<longrightarrow> fs' ! j = fs1 ! j"
    by blast
  obtain t where t:
    "case t of
       None \<Rightarrow> energy u = prey_metabolised p \<and> fs1 = fs
     | Some c \<Rightarrow> eats p gf fs c \<and> c < length fs \<and> active (fs ! c)
         \<and> energy u = prey_metabolised p + 50
         \<and> fs1 = fs[c := (fs ! c)\<lparr>active := False\<rparr>]"
  proof -
    from st show ?thesis
    proof
      assume "energy u = prey_metabolised p \<and> fs1 = fs"
      then show ?thesis by (intro that [of None]) simp
    next
      assume "\<exists>c. eats p gf fs c \<and> c < length fs \<and> active (fs ! c)
          \<and> energy u = prey_metabolised p + 50
          \<and> fs1 = fs[c := (fs ! c)\<lparr>active := False\<rparr>]"
      then obtain c where "eats p gf fs c \<and> c < length fs \<and> active (fs ! c)
          \<and> energy u = prey_metabolised p + 50
          \<and> fs1 = fs[c := (fs ! c)\<lparr>active := False\<rparr>]" ..
      then show ?thesis by (intro that [of "Some c"]) simp
    qed
  qed
  have t_off: "\<not> active (fs1 ! c)" "c < length fs" "active (fs ! c)" if "t = Some c" for c
    using t that by simp_all
  show ?case
  proof (rule exI [of _ "u # us"], rule exI [of _ "fs # fss"], rule exI [of _ "r # rs"],
      rule exI [of _ "t # ts"], intro conjI)
    show "length (u # us) = length (p # rest)" using len by simp
    show "length (t # ts) = length (p # rest)" using len by simp
    show "length (fs # fss) = Suc (length (p # rest))" using len by simp
    show "length (r # rs) = Suc (length (p # rest))" using len by simp
    show "(fs # fss) ! 0 = fs" by simp
    show "(fs # fss) ! length (p # rest) = fs'" using ends by simp
    show "(r # rs) ! 0 = r" by simp
    show "(r # rs) ! length (p # rest) = r'" using ends by simp
    show "\<forall>i<length (p # rest). \<exists>r2.
            Prey_update ((p # rest) ! i) gf ((fs # fss) ! i) gp qs ((r # rs) ! i)
              = Inr ((u # us) ! i, (fs # fss) ! Suc i, r2)
          \<and> (r # rs) ! Suc i = snd (snd (prey_reproduce ((u # us) ! i) r2))"
    proof (intro allI impI)
      fix i assume i: "i < length (p # rest)"
      show "\<exists>r2.
            Prey_update ((p # rest) ! i) gf ((fs # fss) ! i) gp qs ((r # rs) ! i)
              = Inr ((u # us) ! i, (fs # fss) ! Suc i, r2)
          \<and> (r # rs) ! Suc i = snd (snd (prey_reproduce ((u # us) ! i) r2))"
      proof (cases i)
        case 0
        with up rp ends show ?thesis by simp
      next
        case (Suc k)
        with i run show ?thesis by simp
      qed
    qed
    show "\<forall>i<length (p # rest).
           case (t # ts) ! i of
             None \<Rightarrow> energy ((u # us) ! i) = prey_metabolised ((p # rest) ! i)
                \<and> (fs # fss) ! Suc i = (fs # fss) ! i
           | Some c \<Rightarrow> eats ((p # rest) ! i) gf ((fs # fss) ! i) c \<and> c < length fs
               \<and> active ((fs # fss) ! i ! c)
               \<and> energy ((u # us) ! i) = prey_metabolised ((p # rest) ! i) + 50
               \<and> (fs # fss) ! Suc i = ((fs # fss) ! i)[c := ((fs # fss) ! i ! c)\<lparr>active := False\<rparr>]"
    proof (intro allI impI)
      fix i assume i: "i < length (p # rest)"
      show "case (t # ts) ! i of
             None \<Rightarrow> energy ((u # us) ! i) = prey_metabolised ((p # rest) ! i)
                \<and> (fs # fss) ! Suc i = (fs # fss) ! i
           | Some c \<Rightarrow> eats ((p # rest) ! i) gf ((fs # fss) ! i) c \<and> c < length fs
               \<and> active ((fs # fss) ! i ! c)
               \<and> energy ((u # us) ! i) = prey_metabolised ((p # rest) ! i) + 50
               \<and> (fs # fss) ! Suc i = ((fs # fss) ! i)[c := ((fs # fss) ! i ! c)\<lparr>active := False\<rparr>]"
      proof (cases i)
        case 0
        with t ends show ?thesis by (simp split: option.splits)
      next
        case (Suc k)
        with i have k: "k < length rest" by simp
        from tgt [rule_format, OF k] sf(1) Suc show ?thesis
          by (simp split: option.splits)
      qed
    qed
    show "\<forall>i<length (p # rest). \<forall>j<length (p # rest).
        i < j \<longrightarrow> (t # ts) ! i \<noteq> None \<longrightarrow> (t # ts) ! j \<noteq> (t # ts) ! i"
    proof (intro allI impI)
      fix i j assume i: "i < length (p # rest)" and j: "j < length (p # rest)" and ij: "i < j"
        and ne: "(t # ts) ! i \<noteq> None"
      from ij obtain k where k: "j = Suc k" by (cases j) simp_all
      show "(t # ts) ! j \<noteq> (t # ts) ! i"
      proof (cases i)
        case 0
        with ne obtain c where c: "t = Some c" by auto
        have "ts ! k \<noteq> Some c"
        proof
          assume "ts ! k = Some c"
          with act j k have "active (fs1 ! c)" by simp
          with t_off(1) [OF c] show False by simp
        qed
        with 0 k c show ?thesis by simp
      next
        case (Suc a)
        with i j ij k ne dis show ?thesis by simp
      qed
    qed
    show "\<forall>i<length (p # rest). \<forall>c. (t # ts) ! i = Some c \<longrightarrow> active (fs ! c) \<and> \<not> active (fs' ! c)"
    proof (intro allI impI)
      fix i c assume i: "i < length (p # rest)" and c: "(t # ts) ! i = Some c"
      show "active (fs ! c) \<and> \<not> active (fs' ! c)"
      proof (cases i)
        case 0
        with c have tc: "t = Some c" by simp
        from t_off [OF tc] sf(1) same(2) have "fs' ! c = fs1 ! c" by simp
        with t_off [OF tc] show ?thesis by simp
      next
        case (Suc k)
        with i c act have a: "active (fs1 ! c)" "\<not> active (fs' ! c)" by simp_all
        from sf(3) a(1) have "fs1 ! c = fs ! c" by simp
        with a show ?thesis by simp
      qed
    qed
    show "length fs' = length fs" using same(1) sf(1) by simp
    show "\<forall>j<length fs. \<not> active (fs ! j) \<longrightarrow> fs' ! j = fs ! j"
      using same(2) sf(1,2) by auto
  qed
qed

lemma Predator_update_target_facts:
  assumes "Predator_update p gy fd r = Inr (u, fd', r')" and "grid_wf gy (length fd)"
  shows "length fd' = length fd"
    and "\<forall>j<length fd. \<not> active (fd ! j) \<longrightarrow> fd' ! j = fd ! j"
    and "\<forall>j. active (fd' ! j) \<longrightarrow> fd' ! j = fd ! j"
proof -
  note s = Predator_update_target [OF assms]
  show "length fd' = length fd" using s by auto
  show "\<forall>j<length fd. \<not> active (fd ! j) \<longrightarrow> fd' ! j = fd ! j"
    using s by (auto simp: nth_list_update)
  show "\<forall>j. active (fd' ! j) \<longrightarrow> fd' ! j = fd ! j"
  proof (intro allI impI)
    fix j assume a: "active (fd' ! j)"
    from s show "fd' ! j = fd ! j"
    proof
      assume "energy u = pred_metabolised p \<and> fd' = fd"
      then show ?thesis by simp
    next
      assume "\<exists>c. catches p gy fd c \<and> c < length fd \<and> active (fd ! c)
          \<and> energy u = pred_metabolised p + 120
          \<and> fd' = fd[c := (fd ! c)\<lparr>active := False\<rparr>]"
      then obtain c where c: "c < length fd" "fd' = fd[c := (fd ! c)\<lparr>active := False\<rparr>]"
        by blast
      with a have "j \<noteq> c" by auto
      with c show ?thesis by simp
    qed
  qed
qed

lemma pred_loop_chain:
  assumes "pred_loop ps gy new fs r = Inr (ps', new', fs', r')" and "grid_wf gy (length fs)"
  shows "\<exists>us fss rs ts. length us = length ps \<and> length ts = length ps
     \<and> length fss = Suc (length ps) \<and> length rs = Suc (length ps)
     \<and> fss ! 0 = fs \<and> fss ! length ps = fs' \<and> rs ! 0 = r \<and> rs ! length ps = r'
     \<and> (\<forall>i<length ps. \<exists>r2.
            Predator_update (ps ! i) gy (fss ! i) (rs ! i) = Inr (us ! i, fss ! Suc i, r2)
          \<and> rs ! Suc i = snd (snd (pred_reproduce (us ! i) r2)))
     \<and> (\<forall>i<length ps.
           case ts ! i of
             None \<Rightarrow> energy (us ! i) = pred_metabolised (ps ! i) \<and> fss ! Suc i = fss ! i
           | Some c \<Rightarrow> catches (ps ! i) gy (fss ! i) c \<and> c < length fs \<and> active (fss ! i ! c)
               \<and> energy (us ! i) = pred_metabolised (ps ! i) + 120
               \<and> fss ! Suc i = (fss ! i)[c := (fss ! i ! c)\<lparr>active := False\<rparr>])
     \<and> (\<forall>i<length ps. \<forall>j<length ps. i < j \<longrightarrow> ts ! i \<noteq> None \<longrightarrow> ts ! j \<noteq> ts ! i)
     \<and> (\<forall>i<length ps. \<forall>c. ts ! i = Some c \<longrightarrow> active (fs ! c) \<and> \<not> active (fs' ! c))
     \<and> length fs' = length fs
     \<and> (\<forall>j<length fs. \<not> active (fs ! j) \<longrightarrow> fs' ! j = fs ! j)"
  using assms
proof (induction ps arbitrary: new fs r ps' new' fs' r')
  case Nil
  then have "fs' = fs" "r' = r" by simp_all
  then show ?case
    by (intro exI [of _ "[]"] exI [of _ "[fs]"] exI [of _ "[r]"]) simp
next
  case (Cons p rest)
  from pred_loop_Cons_Inr [OF Cons.prems(1)] obtain u fs1 r1 p2 b r2 rest' where
    up: "Predator_update p gy fs r = Inr (u, fs1, r1)" and
    rp: "pred_reproduce u r1 = (p2, b, r2)" and
    lp: "pred_loop rest gy (new @ b) fs1 r2 = Inr (rest', new', fs', r')"
    by blast
  note st = Predator_update_target [OF up Cons.prems(2)]
  note sf = Predator_update_target_facts [OF up Cons.prems(2)]
  have wf1: "grid_wf gy (length fs1)" using sf(1) Cons.prems(2) by simp
  from Cons.IH [OF lp wf1] obtain us fss rs ts where
    len: "length us = length rest" "length ts = length rest"
      "length fss = Suc (length rest)" "length rs = Suc (length rest)" and
    ends: "fss ! 0 = fs1" "fss ! length rest = fs'" "rs ! 0 = r2" "rs ! length rest = r'" and
    run: "\<forall>i<length rest. \<exists>r2.
            Predator_update (rest ! i) gy (fss ! i) (rs ! i) = Inr (us ! i, fss ! Suc i, r2)
          \<and> rs ! Suc i = snd (snd (pred_reproduce (us ! i) r2))" and
    tgt: "\<forall>i<length rest.
           case ts ! i of
             None \<Rightarrow> energy (us ! i) = pred_metabolised (rest ! i) \<and> fss ! Suc i = fss ! i
           | Some c \<Rightarrow> catches (rest ! i) gy (fss ! i) c \<and> c < length fs1 \<and> active (fss ! i ! c)
               \<and> energy (us ! i) = pred_metabolised (rest ! i) + 120
               \<and> fss ! Suc i = (fss ! i)[c := (fss ! i ! c)\<lparr>active := False\<rparr>]" and
    dis: "\<forall>i<length rest. \<forall>j<length rest. i < j \<longrightarrow> ts ! i \<noteq> None \<longrightarrow> ts ! j \<noteq> ts ! i" and
    act: "\<forall>i<length rest. \<forall>c. ts ! i = Some c \<longrightarrow> active (fs1 ! c) \<and> \<not> active (fs' ! c)" and
    same: "length fs' = length fs1" "\<forall>j<length fs1. \<not> active (fs1 ! j) \<longrightarrow> fs' ! j = fs1 ! j"
    by blast
  obtain t where t:
    "case t of
       None \<Rightarrow> energy u = pred_metabolised p \<and> fs1 = fs
     | Some c \<Rightarrow> catches p gy fs c \<and> c < length fs \<and> active (fs ! c)
         \<and> energy u = pred_metabolised p + 120
         \<and> fs1 = fs[c := (fs ! c)\<lparr>active := False\<rparr>]"
  proof -
    from st show ?thesis
    proof
      assume "energy u = pred_metabolised p \<and> fs1 = fs"
      then show ?thesis by (intro that [of None]) simp
    next
      assume "\<exists>c. catches p gy fs c \<and> c < length fs \<and> active (fs ! c)
          \<and> energy u = pred_metabolised p + 120
          \<and> fs1 = fs[c := (fs ! c)\<lparr>active := False\<rparr>]"
      then obtain c where "catches p gy fs c \<and> c < length fs \<and> active (fs ! c)
          \<and> energy u = pred_metabolised p + 120
          \<and> fs1 = fs[c := (fs ! c)\<lparr>active := False\<rparr>]" ..
      then show ?thesis by (intro that [of "Some c"]) simp
    qed
  qed
  have t_off: "\<not> active (fs1 ! c)" "c < length fs" "active (fs ! c)" if "t = Some c" for c
    using t that by simp_all
  show ?case
  proof (rule exI [of _ "u # us"], rule exI [of _ "fs # fss"], rule exI [of _ "r # rs"],
      rule exI [of _ "t # ts"], intro conjI)
    show "length (u # us) = length (p # rest)" using len by simp
    show "length (t # ts) = length (p # rest)" using len by simp
    show "length (fs # fss) = Suc (length (p # rest))" using len by simp
    show "length (r # rs) = Suc (length (p # rest))" using len by simp
    show "(fs # fss) ! 0 = fs" by simp
    show "(fs # fss) ! length (p # rest) = fs'" using ends by simp
    show "(r # rs) ! 0 = r" by simp
    show "(r # rs) ! length (p # rest) = r'" using ends by simp
    show "\<forall>i<length (p # rest). \<exists>r2.
            Predator_update ((p # rest) ! i) gy ((fs # fss) ! i) ((r # rs) ! i)
              = Inr ((u # us) ! i, (fs # fss) ! Suc i, r2)
          \<and> (r # rs) ! Suc i = snd (snd (pred_reproduce ((u # us) ! i) r2))"
    proof (intro allI impI)
      fix i assume i: "i < length (p # rest)"
      show "\<exists>r2.
            Predator_update ((p # rest) ! i) gy ((fs # fss) ! i) ((r # rs) ! i)
              = Inr ((u # us) ! i, (fs # fss) ! Suc i, r2)
          \<and> (r # rs) ! Suc i = snd (snd (pred_reproduce ((u # us) ! i) r2))"
      proof (cases i)
        case 0
        with up rp ends show ?thesis by simp
      next
        case (Suc k)
        with i run show ?thesis by simp
      qed
    qed
    show "\<forall>i<length (p # rest).
           case (t # ts) ! i of
             None \<Rightarrow> energy ((u # us) ! i) = pred_metabolised ((p # rest) ! i)
                \<and> (fs # fss) ! Suc i = (fs # fss) ! i
           | Some c \<Rightarrow> catches ((p # rest) ! i) gy ((fs # fss) ! i) c \<and> c < length fs
               \<and> active ((fs # fss) ! i ! c)
               \<and> energy ((u # us) ! i) = pred_metabolised ((p # rest) ! i) + 120
               \<and> (fs # fss) ! Suc i = ((fs # fss) ! i)[c := ((fs # fss) ! i ! c)\<lparr>active := False\<rparr>]"
    proof (intro allI impI)
      fix i assume i: "i < length (p # rest)"
      show "case (t # ts) ! i of
             None \<Rightarrow> energy ((u # us) ! i) = pred_metabolised ((p # rest) ! i)
                \<and> (fs # fss) ! Suc i = (fs # fss) ! i
           | Some c \<Rightarrow> catches ((p # rest) ! i) gy ((fs # fss) ! i) c \<and> c < length fs
               \<and> active ((fs # fss) ! i ! c)
               \<and> energy ((u # us) ! i) = pred_metabolised ((p # rest) ! i) + 120
               \<and> (fs # fss) ! Suc i = ((fs # fss) ! i)[c := ((fs # fss) ! i ! c)\<lparr>active := False\<rparr>]"
      proof (cases i)
        case 0
        with t ends show ?thesis by (simp split: option.splits)
      next
        case (Suc k)
        with i have k: "k < length rest" by simp
        from tgt [rule_format, OF k] sf(1) Suc show ?thesis
          by (simp split: option.splits)
      qed
    qed
    show "\<forall>i<length (p # rest). \<forall>j<length (p # rest).
        i < j \<longrightarrow> (t # ts) ! i \<noteq> None \<longrightarrow> (t # ts) ! j \<noteq> (t # ts) ! i"
    proof (intro allI impI)
      fix i j assume i: "i < length (p # rest)" and j: "j < length (p # rest)" and ij: "i < j"
        and ne: "(t # ts) ! i \<noteq> None"
      from ij obtain k where k: "j = Suc k" by (cases j) simp_all
      show "(t # ts) ! j \<noteq> (t # ts) ! i"
      proof (cases i)
        case 0
        with ne obtain c where c: "t = Some c" by auto
        have "ts ! k \<noteq> Some c"
        proof
          assume "ts ! k = Some c"
          with act j k have "active (fs1 ! c)" by simp
          with t_off(1) [OF c] show False by simp
        qed
        with 0 k c show ?thesis by simp
      next
        case (Suc a)
        with i j ij k ne dis show ?thesis by simp
      qed
    qed
    show "\<forall>i<length (p # rest). \<forall>c. (t # ts) ! i = Some c \<longrightarrow> active (fs ! c) \<and> \<not> active (fs' ! c)"
    proof (intro allI impI)
      fix i c assume i: "i < length (p # rest)" and c: "(t # ts) ! i = Some c"
      show "active (fs ! c) \<and> \<not> active (fs' ! c)"
      proof (cases i)
        case 0
        with c have tc: "t = Some c" by simp
        from t_off [OF tc] sf(1) same(2) have "fs' ! c = fs1 ! c" by simp
        with t_off [OF tc] show ?thesis by simp
      next
        case (Suc k)
        with i c act have a: "active (fs1 ! c)" "\<not> active (fs' ! c)" by simp_all
        from sf(3) a(1) have "fs1 ! c = fs ! c" by simp
        with a show ?thesis by simp
      qed
    qed
    show "length fs' = length fs" using same(1) sf(1) by simp
    show "\<forall>j<length fs. \<not> active (fs ! j) \<longrightarrow> fs' ! j = fs ! j"
      using same(2) sf(1,2) by auto
  qed
qed

lemma sqrt_121: "sqrt 121 = 11"
  by (rule sqrt_eqI) simp_all

lemma sqrt_1_16: "sqrt (1 / 16) = 1 / 4"
  by (rule sqrt_eqI) simp_all

lemma sqrt_1_4: "sqrt (1 / 4) = 1 / 2"
  by (rule sqrt_eqI) simp_all

lemma nearby_F: "get_nearby (register [food_A]) (6, 8) 1 = [0]"
  by (simp add: get_nearby_register square_def food_A_def example_defs upto_rec1)

lemma nearby_G: "get_nearby (register [prey_B]) (6, 8) 2 = [0]"
  by (simp add: get_nearby_register square_def prey_B_def example_defs upto_rec1)

lemma Prey_update_F:
  "Prey_update prey_F (register [food_A]) [food_A\<lparr>active := False\<rparr>] (register []) [] rng_half
     = Inr (prey_F', [food_A\<lparr>active := False\<rparr>], rng_half)"
  by (simp add: Prey_update_def Let_def prey_F_def prey_F'_def nearby_none nearby_F food_A_fields
      prey_at_def PREY_DNA_def PREY_METABOLISM_def VECTOR_EPSILON_def WORLD_W_def WORLD_H_def
      Prey_flee_or_eat_def Prey_wander_def dna_get_def distance_to_def vlength_def uniform_eq
      rng_half_def
      steer_def scale_to_length_def update_physics_def edges_def example_sqrts sqrt_121 sqrt_1_16)

lemma Predator_update_G:
  "Predator_update pred_G (register [prey_B]) [prey_B\<lparr>active := False\<rparr>] rng_half
     = Inr (pred_G', [prey_B\<lparr>active := False\<rparr>], rng_half)"
  by (simp add: Predator_update_def Let_def pred_G_def pred_G'_def nearby_G prey_B_fields
      predator_at_def PRED_DNA_def PRED_METABOLISM_def VECTOR_EPSILON_def WORLD_W_def WORLD_H_def
      Predator_hunt_or_patrol_def dna_get_def distance_to_def vlength_def uniform_eq rng_half_def
      steer_def scale_to_length_def update_physics_def edges_def example_sqrts sqrt_1_4)

lemma prey_reproduce_F: "prey_reproduce prey_F' rng_half = (prey_F', [], rng_half)"
  by (simp add: prey_reproduce_def prey_F'_def prey_at_def REPRO_COST_PREY_def)

lemma pred_reproduce_G: "pred_reproduce pred_G' rng_half = (pred_G', [], rng_half)"
  by (simp add: pred_reproduce_def pred_G'_def predator_at_def REPRO_COST_PRED_def)

lemma prey_loop_AF:
  "prey_loop [prey_A, prey_F] (register [food_A]) (register []) [] [] [food_A] rng_half
     = Inr ([prey_A'\<lparr>energy := 119 / 2\<rparr>, prey_F'], [child_A], [food_A\<lparr>active := False\<rparr>],
            rng_half)"
  by (simp add: Prey_update_A prey_reproduce_A Prey_update_F prey_reproduce_F)

lemma pred_loop_BG:
  "pred_loop [pred_B, pred_G] (register [prey_B]) [] [prey_B] rng_half
     = Inr ([pred_B'\<lparr>energy := 846 / 5\<rparr>, pred_G'], [child_B], [prey_B\<lparr>active := False\<rparr>],
            rng_half)"
  by (simp add: Predator_update_B pred_reproduce_B Predator_update_G pred_reproduce_G)

lemma distance_F: "distance_to (pos prey_F) (pos food_A) = 5" "distance_to (pos pred_G) (pos prey_B) = 5"
  by (simp_all add: prey_F_def pred_G_def prey_at_def predator_at_def food_A_fields prey_B_fields
      distance_to_def vlength_def sqrt_25)

lemma eats_A: "eats prey_A (register [food_A]) [food_A] 0"
  by (simp add: eats_def prey_A_def prey_at_def PREY_DNA_def dna_get_def nearby_A food_A_fields
      distance_to_def vlength_def sqrt_25)

lemma catches_B: "catches pred_B (register [prey_B]) [prey_B] 0"
  by (simp add: catches_def pred_B_def predator_at_def PRED_DNA_def dna_get_def nearby_B
      prey_B_fields distance_to_def vlength_def sqrt_25)

lemma eats_F: "eats prey_F (register [food_A]) [food_A] 0"
  by (simp add: eats_def prey_F_def prey_at_def PREY_DNA_def dna_get_def nearby_F food_A_fields
      distance_to_def vlength_def sqrt_25)

lemma catches_G: "catches pred_G (register [prey_B]) [prey_B] 0"
  by (simp add: catches_def pred_G_def predator_at_def PRED_DNA_def dna_get_def nearby_G
      prey_B_fields distance_to_def vlength_def sqrt_25)

text \<open>
  C10. The pass over the prey is a chain of updates, each on the food list that the update
  before it left, and with the generator that the reproduction before it left. For every
  prey of the pass, either its update gives no reward and leaves the food list as it was,
  or the item that its food loop selected is active and closer than 10, the prey gains 50
  and exactly that item becomes inactive. No two prey of the pass have the same target; a
  target was active before the pass and is inactive after it; an item that was inactive
  before the pass is left as it was. The same holds in the pass over the predators for the
  prey they hunt, with the distance 12 and the reward 120. A selection loop with the test of
  \<^verbatim>\<open>active\<close> never returns an item that is not active.
\<close>

theorem consumed_at_most_once:
  assumes "prey_loop ps gf gp qs new fs r = Inr (ps', new', fs', r')"
    and "grid_wf gf (length fs)"
    and "pred_loop ds gy newd ys k = Inr (ds', newd', ys', k')"
    and "grid_wf gy (length ys)"
  shows "(\<exists>us fss rs ts. length us = length ps \<and> length ts = length ps
     \<and> length fss = Suc (length ps) \<and> length rs = Suc (length ps)
     \<and> fss ! 0 = fs \<and> fss ! length ps = fs' \<and> rs ! 0 = r \<and> rs ! length ps = r'
     \<and> (\<forall>i<length ps. \<exists>r2.
            Prey_update (ps ! i) gf (fss ! i) gp qs (rs ! i) = Inr (us ! i, fss ! Suc i, r2)
          \<and> rs ! Suc i = snd (snd (prey_reproduce (us ! i) r2)))
     \<and> (\<forall>i<length ps.
           case ts ! i of
             None \<Rightarrow> energy (us ! i) = prey_metabolised (ps ! i) \<and> fss ! Suc i = fss ! i
           | Some c \<Rightarrow> eats (ps ! i) gf (fss ! i) c \<and> c < length fs \<and> active (fss ! i ! c)
               \<and> energy (us ! i) = prey_metabolised (ps ! i) + 50
               \<and> fss ! Suc i = (fss ! i)[c := (fss ! i ! c)\<lparr>active := False\<rparr>])
     \<and> (\<forall>i<length ps. \<forall>j<length ps. i < j \<longrightarrow> ts ! i \<noteq> None \<longrightarrow> ts ! j \<noteq> ts ! i)
     \<and> (\<forall>i<length ps. \<forall>c. ts ! i = Some c \<longrightarrow> active (fs ! c) \<and> \<not> active (fs' ! c))
     \<and> length fs' = length fs
     \<and> (\<forall>j<length fs. \<not> active (fs ! j) \<longrightarrow> fs' ! j = fs ! j))
   \<and> (\<exists>vs yss ks ts. length vs = length ds \<and> length ts = length ds
     \<and> length yss = Suc (length ds) \<and> length ks = Suc (length ds)
     \<and> yss ! 0 = ys \<and> yss ! length ds = ys' \<and> ks ! 0 = k \<and> ks ! length ds = k'
     \<and> (\<forall>i<length ds. \<exists>r2.
            Predator_update (ds ! i) gy (yss ! i) (ks ! i) = Inr (vs ! i, yss ! Suc i, r2)
          \<and> ks ! Suc i = snd (snd (pred_reproduce (vs ! i) r2)))
     \<and> (\<forall>i<length ds.
           case ts ! i of
             None \<Rightarrow> energy (vs ! i) = pred_metabolised (ds ! i) \<and> yss ! Suc i = yss ! i
           | Some c \<Rightarrow> catches (ds ! i) gy (yss ! i) c \<and> c < length ys \<and> active (yss ! i ! c)
               \<and> energy (vs ! i) = pred_metabolised (ds ! i) + 120
               \<and> yss ! Suc i = (yss ! i)[c := (yss ! i ! c)\<lparr>active := False\<rparr>])
     \<and> (\<forall>i<length ds. \<forall>j<length ds. i < j \<longrightarrow> ts ! i \<noteq> None \<longrightarrow> ts ! j \<noteq> ts ! i)
     \<and> (\<forall>i<length ds. \<forall>c. ts ! i = Some c \<longrightarrow> active (ys ! c) \<and> \<not> active (ys' ! c))
     \<and> length ys' = length ys
     \<and> (\<forall>j<length ys. \<not> active (ys ! j) \<longrightarrow> ys' ! j = ys ! j))
   \<and> (\<forall>(st :: Entity list) p js m d c.
         closest_loop True p st js m None = (d, Some c) \<longrightarrow> c \<in> set js \<and> active (st ! c))
   \<and> (\<forall>(st :: Agent list) p js m d c.
         closest_loop True p st js m None = (d, Some c) \<longrightarrow> c \<in> set js \<and> active (st ! c))"
proof (intro conjI)
  show "\<forall>(st :: Entity list) p js m d c.
         closest_loop True p st js m None = (d, Some c) \<longrightarrow> c \<in> set js \<and> active (st ! c)"
    by (intro allI impI) (rule closest_loop_active)
  show "\<forall>(st :: Agent list) p js m d c.
         closest_loop True p st js m None = (d, Some c) \<longrightarrow> c \<in> set js \<and> active (st ! c)"
    by (intro allI impI) (rule closest_loop_active)
qed (rule prey_loop_chain [OF assms(1,2)], rule pred_loop_chain [OF assms(3,4)])

theorem consumed_at_most_once_witness:
  "prey_loop [prey_A, prey_F] (register [food_A]) (register []) [] [] [food_A] rng_half
     = Inr ([prey_A'\<lparr>energy := 119 / 2\<rparr>, prey_F'], [child_A], [food_A\<lparr>active := False\<rparr>],
            rng_half)
   \<and> pred_loop [pred_B, pred_G] (register [prey_B]) [] [prey_B] rng_half
     = Inr ([pred_B'\<lparr>energy := 846 / 5\<rparr>, pred_G'], [child_B], [prey_B\<lparr>active := False\<rparr>],
            rng_half)
   \<and> eats prey_A (register [food_A]) [food_A] 0
   \<and> eats prey_F (register [food_A]) [food_A] 0
   \<and> Prey_update prey_F (register [food_A]) [food_A\<lparr>active := False\<rparr>] (register []) [] rng_half
       = Inr (prey_F', [food_A\<lparr>active := False\<rparr>], rng_half)
   \<and> energy prey_F' = prey_metabolised prey_F
   \<and> catches pred_B (register [prey_B]) [prey_B] 0
   \<and> catches pred_G (register [prey_B]) [prey_B] 0
   \<and> Predator_update pred_G (register [prey_B]) [prey_B\<lparr>active := False\<rparr>] rng_half
       = Inr (pred_G', [prey_B\<lparr>active := False\<rparr>], rng_half)
   \<and> energy pred_G' = pred_metabolised pred_G
   \<and> (\<exists>(us :: Agent list) fss. length us = length [prey_A, prey_F]
         \<and> fss ! 0 = [food_A] \<and> fss ! length [prey_A, prey_F] = [food_A\<lparr>active := False\<rparr>])
   \<and> (\<exists>(vs :: Agent list) yss. length vs = length [pred_B, pred_G]
         \<and> yss ! 0 = [prey_B] \<and> yss ! length [pred_B, pred_G] = [prey_B\<lparr>active := False\<rparr>])"
proof -
  have w1: "grid_wf (register [food_A]) (length [food_A])"
    by (rule register_wf)
  have w2: "grid_wf (register [prey_B]) (length [prey_B])"
    by (rule register_wf)
  have e: "energy prey_F' = prey_metabolised prey_F" "energy pred_G' = pred_metabolised pred_G"
    by (simp_all add: prey_F'_def prey_F_def pred_G'_def pred_G_def prey_at_def predator_at_def
        prey_metabolised_def pred_metabolised_def PREY_METABOLISM_def PRED_METABOLISM_def)
  note t = consumed_at_most_once [OF prey_loop_AF w1 pred_loop_BG w2]
  from t [THEN conjunct1] obtain us :: "Agent list" and fss where
    "length us = length [prey_A, prey_F]" "fss ! 0 = [food_A]"
    "fss ! length [prey_A, prey_F] = [food_A\<lparr>active := False\<rparr>]"
    by (elim exE conjE) (rule that, assumption+)
  then have 1: "\<exists>(us :: Agent list) fss. length us = length [prey_A, prey_F]
         \<and> fss ! 0 = [food_A] \<and> fss ! length [prey_A, prey_F] = [food_A\<lparr>active := False\<rparr>]"
    by (intro exI conjI)
  from t [THEN conjunct2, THEN conjunct1] obtain vs :: "Agent list" and yss where
    "length vs = length [pred_B, pred_G]" "yss ! 0 = [prey_B]"
    "yss ! length [pred_B, pred_G] = [prey_B\<lparr>active := False\<rparr>]"
    by (elim exE conjE) (rule that, assumption+)
  then have 2: "\<exists>(vs :: Agent list) yss. length vs = length [pred_B, pred_G]
         \<and> yss ! 0 = [prey_B] \<and> yss ! length [pred_B, pred_G] = [prey_B\<lparr>active := False\<rparr>]"
    by (intro exI conjI)
  show ?thesis
    using prey_loop_AF pred_loop_BG eats_A eats_F Prey_update_F e catches_B catches_G
      Predator_update_G 1 2
    by (intro conjI)
qed

subsection \<open>The tick\<close>

lemma Predator_update_range:
  assumes "Predator_update p gy ys r = Inr (u, ys', r')" and "grid_wf gy n"
  shows "length ys' = length ys
    \<and> (\<forall>j<length ys. ys' ! j = ys ! j \<or> (j < n \<and> ys' ! j = (ys ! j)\<lparr>active := False\<rparr>))"
proof -
  from Predator_update_energy_prey [OF assms(1)]
  consider "ys' = ys"
    | c where "c \<in> set (get_nearby gy (pos p) 2)" "ys' = ys[c := (ys ! c)\<lparr>active := False\<rparr>]"
    by blast
  then show ?thesis
  proof cases
    case 1
    then show ?thesis by simp
  next
    case 2
    from 2(1) assms(2) have "c < n" by (rule grid_wf_nearby [rotated])
    have "ys[c := (ys ! c)\<lparr>active := False\<rparr>] ! j = ys ! j
        \<or> (j < n \<and> ys[c := (ys ! c)\<lparr>active := False\<rparr>] ! j = (ys ! j)\<lparr>active := False\<rparr>)"
      if "j < length ys" for j
      using that \<open>c < n\<close> by (cases "j = c") simp_all
    then show ?thesis
      unfolding 2(2) by simp
  qed
qed

lemma pred_loop_range:
  assumes "pred_loop ds gy new ys k = Inr (ds', new', ys', k')" and "grid_wf gy n"
  shows "length ys' = length ys
    \<and> (\<forall>j<length ys. ys' ! j = ys ! j \<or> (j < n \<and> ys' ! j = (ys ! j)\<lparr>active := False\<rparr>))"
  using assms
proof (induction ds arbitrary: new ys k ds' new' ys' k')
  case Nil
  then show ?case by simp
next
  case (Cons p rest)
  from pred_loop_Cons_Inr [OF Cons.prems(1)] obtain u ys1 r1 p2 b r2 rest' where
    up: "Predator_update p gy ys k = Inr (u, ys1, r1)" and
    lp: "pred_loop rest gy (new @ b) ys1 r2 = Inr (rest', new', ys', k')"
    by blast
  note a = Predator_update_range [OF up Cons.prems(2)]
  note b = Cons.IH [OF lp Cons.prems(2)]
  show ?case
  proof (intro conjI allI impI)
    show "length ys' = length ys" using a b by simp
    fix j assume j: "j < length ys"
    with a have 1: "ys1 ! j = ys ! j \<or> (j < n \<and> ys1 ! j = (ys ! j)\<lparr>active := False\<rparr>)" by blast
    from j a b have 2: "ys' ! j = ys1 ! j \<or> (j < n \<and> ys' ! j = (ys1 ! j)\<lparr>active := False\<rparr>)" by simp
    from 1 2 show "ys' ! j = ys ! j \<or> (j < n \<and> ys' ! j = (ys ! j)\<lparr>active := False\<rparr>)"
      by auto
  qed
qed

lemma stats_update_fields [simp]:
  "food (stats_update t s) = food s" "prey (stats_update t s) = prey s"
  "preds (stats_update t s) = preds s" "state (stats_update t s) = state s"
  "running (stats_update t s) = running s"
  by (simp_all add: stats_update_def Let_def)

lemma register_grids_fields [simp]:
  "food (register_grids s) = food s" "prey (register_grids s) = prey s"
  "preds (register_grids s) = preds s" "state (register_grids s) = state s"
  "grid_food (register_grids s) = register (food s)"
  "grid_prey (register_grids s) = register (prey s)"
  "grid_preds (register_grids s) = register (preds s)"
  by (simp_all add: register_grids_def)

lemma sim_tick_terminal:
  "prey (prune s) = [] \<Longrightarrow> preds (prune s) = [] \<Longrightarrow>
     sim_tick t s r = Inr ((prune s)\<lparr>state := GAMEOVER\<rparr>, r)"
  by (simp add: sim_tick_def Let_def)

lemma sim_tick_Inr:
  assumes "sim_tick t s r = Inr (s', r')" and "prey (prune s) \<noteq> [] \<or> preds (prune s) \<noteq> []"
  shows "\<exists>fs r1 prey' new_prey fs' r2 preds' new_preds prey''.
      food_regrowth (food (prune s)) r = (fs, r1)
    \<and> prey_loop (prey (prune s)) (register (food (prune s))) (register (preds (prune s)))
          (preds (prune s)) [] fs r1 = Inr (prey', new_prey, fs', r2)
    \<and> pred_loop (preds (prune s)) (register (prey (prune s))) [] (prey' @ new_prey) r2
          = Inr (preds', new_preds, prey'', r')
    \<and> s' = stats_update t
             ((register_grids (prune s))\<lparr>food := fs', prey := prey'', preds := preds' @ new_preds\<rparr>)"
proof -
  obtain fs r1 where f: "food_regrowth (food (prune s)) r = (fs, r1)"
    by (cases "food_regrowth (food (prune s)) r")
  from assms f show ?thesis
    by (auto simp: sim_tick_def Let_def ebind_Inr_iff)
qed

lemma sim_tick_shape:
  assumes "sim_tick t s r = Inr (s', r')"
    and "prey (prune s) \<noteq> [] \<or> preds (prune s) \<noteq> []"
  shows "\<exists>us bornp vs bornd.
      length us = length (prey (prune s))
    \<and> (\<forall>i<length (prey (prune s)). \<exists>fs1 r1 fs2 r2.
          Prey_update (prey (prune s) ! i) (register (food (prune s))) fs1
            (register (preds (prune s))) (preds (prune s)) r1 = Inr (us ! i, fs2, r2))
    \<and> length (prey s') = length us + length bornp
    \<and> (\<forall>i<length us.
          prey s' ! i = (if energy (us ! i) > REPRO_COST_PREY + 50
                         then (us ! i)\<lparr>energy := energy (us ! i) - REPRO_COST_PREY\<rparr> else us ! i)
        \<or> prey s' ! i = (if energy (us ! i) > REPRO_COST_PREY + 50
                         then (us ! i)\<lparr>energy := energy (us ! i) - REPRO_COST_PREY\<rparr> else us ! i)
                        \<lparr>active := False\<rparr>)
    \<and> drop (length us) (prey s') = bornp
    \<and> map pos bornp = map pos (filter (\<lambda>u. energy u > REPRO_COST_PREY + 50) us)
    \<and> (\<forall>c \<in> set bornp. active c \<and> acc c = (0, 0) \<and> energy c = 150)
    \<and> length vs = length (preds (prune s))
    \<and> (\<forall>i<length (preds (prune s)). \<exists>ys1 r1 ys2 r2.
          Predator_update (preds (prune s) ! i) (register (prey (prune s))) ys1 r1
            = Inr (vs ! i, ys2, r2))
    \<and> preds s' = map (\<lambda>v. if energy v > REPRO_COST_PRED + 50
                            then v\<lparr>energy := energy v - REPRO_COST_PRED\<rparr> else v) vs @ bornd
    \<and> map pos bornd = map pos (filter (\<lambda>v. energy v > REPRO_COST_PRED + 50) vs)
    \<and> (\<forall>c \<in> set bornd. active c \<and> acc c = (0, 0) \<and> energy c = 300)"
proof -
  let ?n = "length (prey (prune s))"
  let ?rp = "\<lambda>u. if energy u > REPRO_COST_PREY + 50
                  then u\<lparr>energy := energy u - REPRO_COST_PREY\<rparr> else u"
  from sim_tick_Inr [OF assms] obtain fs r1 prey' new_prey fs' r2 preds' new_preds prey'' where
    pl: "prey_loop (prey (prune s)) (register (food (prune s))) (register (preds (prune s)))
          (preds (prune s)) [] fs r1 = Inr (prey', new_prey, fs', r2)" and
    dl: "pred_loop (preds (prune s)) (register (prey (prune s))) [] (prey' @ new_prey) r2
          = Inr (preds', new_preds, prey'', r')" and
    s': "s' = stats_update t
             ((register_grids (prune s))\<lparr>food := fs', prey := prey'', preds := preds' @ new_preds\<rparr>)"
    by blast
  from prey_loop_shape [OF pl] obtain us bornp where
    u: "length us = ?n"
      "\<forall>i<?n. \<exists>fs1 r1 fs2 r2.
          Prey_update (prey (prune s) ! i) (register (food (prune s))) fs1
            (register (preds (prune s))) (preds (prune s)) r1 = Inr (us ! i, fs2, r2)"
      "prey' = map ?rp us"
      "new_prey = [] @ bornp"
      "map pos bornp = map pos (filter (\<lambda>u. energy u > REPRO_COST_PREY + 50) us)"
      "\<forall>c \<in> set bornp. active c \<and> acc c = (0, 0) \<and> energy c = 150"
    by blast
  from pred_loop_shape [OF dl] obtain vs bornd where
    v: "length vs = length (preds (prune s))"
      "\<forall>i<length (preds (prune s)). \<exists>ys1 r1 ys2 r2.
          Predator_update (preds (prune s) ! i) (register (prey (prune s))) ys1 r1
            = Inr (vs ! i, ys2, r2)"
      "preds' = map (\<lambda>v. if energy v > REPRO_COST_PRED + 50
                            then v\<lparr>energy := energy v - REPRO_COST_PRED\<rparr> else v) vs"
      "new_preds = [] @ bornd"
      "map pos bornd = map pos (filter (\<lambda>v. energy v > REPRO_COST_PRED + 50) vs)"
      "\<forall>c \<in> set bornd. active c \<and> acc c = (0, 0) \<and> energy c = 300"
    by blast
  have ps: "prey s' = prey''" and ds: "preds s' = preds' @ new_preds"
    by (simp_all add: s')
  from pred_loop_range [OF dl register_wf] have
    len: "length prey'' = length (prey' @ new_prey)" and
    rng: "\<forall>j<length (prey' @ new_prey). prey'' ! j = (prey' @ new_prey) ! j
        \<or> (j < ?n \<and> prey'' ! j = ((prey' @ new_prey) ! j)\<lparr>active := False\<rparr>)"
    by simp_all
  have lp: "length prey' = length us" using u(3) by simp
  have 1: "length (prey s') = length us + length bornp"
    using len lp u(4) by (simp add: ps)
  have 2: "prey s' ! i = ?rp (us ! i) \<or> prey s' ! i = (?rp (us ! i))\<lparr>active := False\<rparr>"
    if "i < length us" for i
  proof -
    from that lp have "(prey' @ new_prey) ! i = ?rp (us ! i)"
      by (simp add: nth_append u(3))
    moreover from that lp have "i < length (prey' @ new_prey)" by simp
    ultimately show ?thesis using rng by (auto simp: ps)
  qed
  have 3: "drop (length us) (prey s') = bornp"
  proof (rule nth_equalityI)
    show "length (drop (length us) (prey s')) = length bornp" using 1 by simp
    fix i assume "i < length (drop (length us) (prey s'))"
    then have i: "length us + i < length (prey' @ new_prey)" using 1 lp u(4) by simp
    with rng u(1) have "prey'' ! (length us + i) = (prey' @ new_prey) ! (length us + i)"
      by auto
    then show "drop (length us) (prey s') ! i = bornp ! i"
      using i lp u(4) 1 by (simp add: ps nth_append)
  qed
  have 4: "preds s' = map (\<lambda>v. if energy v > REPRO_COST_PRED + 50
                            then v\<lparr>energy := energy v - REPRO_COST_PRED\<rparr> else v) vs @ bornd"
    using v(3,4) by (simp add: ds)
  show ?thesis
    apply (rule exI [of _ us], rule exI [of _ bornp], rule exI [of _ vs], rule exI [of _ bornd])
    using u(1,2,5,6) v(1,2,5,6) 1 2 3 4 by blast
qed

lemma rng_half_tail [simp]: "(\<lambda>n. rng_half (Suc n)) = rng_half"
  by (simp add: rng_half_def)

lemma prune_app_A: "prune app_A = app_A"
  by (simp add: prune_def app_A_def Let_def food_A_fields alive_def prey_A_def prey_at_def)

lemma food_regrowth_A: "food_regrowth [food_A] rng_half = ([food_A], rng_half)"
  by (simp add: food_regrowth_def random_def FOOD_RATE_def) (simp add: rng_half_def)

lemma sim_tick_A: "sim_tick 1 app_A rng_half = Inr (app_A', rng_half)"
  by (simp add: sim_tick_def Let_def prune_app_A)
     (simp add: app_A_def app_A'_def register_grids_def food_regrowth_A Prey_update_A
        prey_reproduce_A stats_update_def Let_def)

text \<open>
  C1 (as amended). In a tick that is not terminal, every prey of the pruned list is updated
  once, and it spawns exactly one offspring if and only if its energy after that update
  (metabolism and feeding of this tick applied) exceeds \<open>REPRO_COST_PREY + 50\<close>; its energy
  is then the energy after the update minus \<open>REPRO_COST_PREY\<close>, otherwise it is unchanged.
  The offspring are at the positions their parents have after the update, in the order of the
  parents. They come after the pre-existing prey in the list at the end of the tick, as the
  constructor built them (active, no acceleration, energy 150): none was updated, has
  reproduced or was hunted in this tick. A pre-existing prey differs from its state after
  reproduction at most by having been deactivated by a predator. The same holds for the
  predators, with \<open>REPRO_COST_PRED\<close> and the initial energy 300.
\<close>

theorem reproduction_pass:
  assumes "sim_tick t s r = Inr (s', r')"
    and "prey (prune s) \<noteq> [] \<or> preds (prune s) \<noteq> []"
  shows "\<exists>us bornp vs bornd.
      length us = length (prey (prune s))
    \<and> (\<forall>i<length (prey (prune s)). \<exists>fs1 r1 fs2 r2.
          Prey_update (prey (prune s) ! i) (register (food (prune s))) fs1
            (register (preds (prune s))) (preds (prune s)) r1 = Inr (us ! i, fs2, r2))
    \<and> length (prey s') = length us + length bornp
    \<and> (\<forall>i<length us.
          prey s' ! i = (if energy (us ! i) > REPRO_COST_PREY + 50
                         then (us ! i)\<lparr>energy := energy (us ! i) - REPRO_COST_PREY\<rparr> else us ! i)
        \<or> prey s' ! i = (if energy (us ! i) > REPRO_COST_PREY + 50
                         then (us ! i)\<lparr>energy := energy (us ! i) - REPRO_COST_PREY\<rparr> else us ! i)
                        \<lparr>active := False\<rparr>)
    \<and> drop (length us) (prey s') = bornp
    \<and> map pos bornp = map pos (filter (\<lambda>u. energy u > REPRO_COST_PREY + 50) us)
    \<and> (\<forall>c \<in> set bornp. active c \<and> acc c = (0, 0) \<and> energy c = 150)
    \<and> length vs = length (preds (prune s))
    \<and> (\<forall>i<length (preds (prune s)). \<exists>ys1 r1 ys2 r2.
          Predator_update (preds (prune s) ! i) (register (prey (prune s))) ys1 r1
            = Inr (vs ! i, ys2, r2))
    \<and> preds s' = map (\<lambda>v. if energy v > REPRO_COST_PRED + 50
                            then v\<lparr>energy := energy v - REPRO_COST_PRED\<rparr> else v) vs @ bornd
    \<and> map pos bornd = map pos (filter (\<lambda>v. energy v > REPRO_COST_PRED + 50) vs)
    \<and> (\<forall>c \<in> set bornd. active c \<and> acc c = (0, 0) \<and> energy c = 300)"
  using assms by (rule sim_tick_shape)

theorem reproduction_pass_witness:
  "sim_tick 1 app_A rng_half = Inr (app_A', rng_half)
   \<and> prey (prune app_A) = [prey_A]
   \<and> (\<exists>(us :: Agent list) bornp. length us = length (prey (prune app_A))
         \<and> length (prey app_A') = length us + length bornp
         \<and> drop (length us) (prey app_A') = bornp
         \<and> map pos bornp = map pos (filter (\<lambda>u. energy u > REPRO_COST_PREY + 50) us))"
proof -
  have p: "prey (prune app_A) = [prey_A]"
    by (simp add: prune_app_A) (simp add: app_A_def)
  then have h: "prey (prune app_A) \<noteq> [] \<or> preds (prune app_A) \<noteq> []"
    by simp
  from reproduction_pass [OF sim_tick_A h] sim_tick_A p
  show ?thesis
    by blast
qed

theorem reproduction_pass_counterexample:
  "sim_tick 1 app_A rng_half = Inr (app_A', rng_half)
   \<and> prey app_A = [prey_A] \<and> energy prey_A = 110
   \<and> \<not> energy prey_A > REPRO_COST_PREY + 50
   \<and> prey app_A' = [prey_A'\<lparr>energy := 119 / 2\<rparr>, child_A]
   \<and> pos child_A = pos prey_A' \<and> pos child_A \<noteq> pos prey_A"
  using sim_tick_A
  by (simp add: app_A_def app_A'_def prey_A_def prey_A'_def child_A_def prey_at_def
      REPRO_COST_PREY_def)

subsection \<open>The priorities of a prey\<close>












lemma steer_energy [simp]: "steer (a\<lparr>energy := e\<rparr>) target k = steer a target k"
  by (simp add: steer_def Let_def)




subsection \<open>The terminal state\<close>

lemma handle_event_click:
  "handle_event (MOUSEBUTTONDOWN b (mx, my)) s r =
     (let s3 = (if b = 3 then s\<lparr>camera := toggle_overview (camera s)\<rparr> else s) in
      if b = 1 then
        ebind (unapply (camera s3) (real_of_int mx, real_of_int my)) (\<lambda>wp.
          Inr (s3\<lparr>preds := preds s3 @ [fst (Predator_init (fst wp) (snd wp) None r)]\<rparr>,
               snd (Predator_init (fst wp) (snd wp) None r)))
      else Inr (s3, r))"
  by (simp add: handle_event_def Let_def case_prod_beta)

lemma prune_camera [simp]:
  "prune (s\<lparr>camera := c\<rparr>) = (prune s)\<lparr>camera := c\<rparr>"
  by (simp add: prune_def Let_def)

lemma prune_state [simp]:
  "prune (s\<lparr>state := st\<rparr>) = (prune s)\<lparr>state := st\<rparr>"
  by (simp add: prune_def Let_def)

lemma sim_tick_state:
  assumes "sim_tick t s r = Inr (s', r')"
  shows "state s' = GAMEOVER \<longleftrightarrow>
     state s = GAMEOVER \<or> (prey (prune s) = [] \<and> preds (prune s) = [])"
proof (cases "prey (prune s) = [] \<and> preds (prune s) = []")
  case True
  with assms sim_tick_terminal [of s t r] show ?thesis by auto
next
  case False
  then have "prey (prune s) \<noteq> [] \<or> preds (prune s) \<noteq> []" by simp
  from sim_tick_Inr [OF assms this] have "state s' = state s"
    by (auto simp: prune_lists)
  with False show ?thesis by auto
qed

text \<open>
  C2. The step is the tick of lines 373 to 425; the inputs of lines 358 to 369 are handled
  before it. If the prey and the predators are both empty after the prune of lines 377 to
  379, the tick returns normally with the state \<open>GAMEOVER\<close>, and what it returns is the
  pruned state with that flag and the generator as it was: no registration, no food, no
  update, no statistics, no draw. The state after a tick that returns is \<open>GAMEOVER\<close>
  exactly when it was so before the tick or both lists were empty after the prune: the
  tick has no other way into the terminal state.
\<close>

theorem collapse_is_status:
  "(prey (prune s) = [] \<and> preds (prune s) = [] \<longrightarrow>
      sim_tick t s r = Inr ((prune s)\<lparr>state := GAMEOVER\<rparr>, r))
   \<and> (\<forall>s' r'. sim_tick t s r = Inr (s', r') \<longrightarrow>
         (state s' = GAMEOVER \<longleftrightarrow>
            state s = GAMEOVER \<or> (prey (prune s) = [] \<and> preds (prune s) = [])))"
proof (intro conjI impI allI)
  assume "prey (prune s) = [] \<and> preds (prune s) = []"
  then show "sim_tick t s r = Inr ((prune s)\<lparr>state := GAMEOVER\<rparr>, r)"
    by (simp add: sim_tick_terminal)
next
  fix s' r' assume "sim_tick t s r = Inr (s', r')"
  then show "state s' = GAMEOVER \<longleftrightarrow>
      state s = GAMEOVER \<or> (prey (prune s) = [] \<and> preds (prune s) = [])"
    by (rule sim_tick_state)
qed

lemma prune_app_E: "prune app_E = app_E"
  by (simp add: prune_def app_E_def app_A_def Let_def food_A_fields)

theorem collapse_is_status_witness:
  "prey (prune app_E) = [] \<and> preds (prune app_E) = []
   \<and> sim_tick 1 app_E rng_half = Inr (app_E\<lparr>state := GAMEOVER\<rparr>, rng_half)
   \<and> state (app_E\<lparr>state := GAMEOVER\<rparr>) = GAMEOVER
   \<and> sim_tick 1 app_A rng_half = Inr (app_A', rng_half)
   \<and> prey (prune app_A) = [prey_A]
   \<and> state app_A = SIM \<and> state app_A' = SIM"
proof -
  have e: "prey (prune app_E) = [] \<and> preds (prune app_E) = []"
    by (simp add: prune_app_E) (simp add: app_E_def app_A_def)
  have a: "state app_A = SIM" "state app_A' = state app_A" "prey (prune app_A) = [prey_A]"
    by (simp_all add: prune_app_A) (simp_all add: app_A_def app_A'_def)
  from collapse_is_status [of app_E 1 rng_half, THEN conjunct1, rule_format, OF e]
    collapse_is_status [of app_A 1 rng_half, THEN conjunct2, rule_format, OF sim_tick_A]
    e a sim_tick_A
  show ?thesis
    by (simp add: prune_app_E)
qed

subsection \<open>Positions after a tick\<close>

lemma Prey_update_in_world: "Prey_update p gf fd gp qs r = Inr (u, fd', r') \<Longrightarrow> in_world (pos u)"
  by (auto dest!: Prey_update_Inr dest: update_physics_in_world)

lemma Predator_update_in_world: "Predator_update p gy ys r = Inr (u, ys', r') \<Longrightarrow> in_world (pos u)"
  by (auto dest!: Predator_update_Inr dest: update_physics_in_world)

lemma sim_tick_in_world:
  assumes "sim_tick t s r = Inr (s', r')"
    and "prey (prune s) \<noteq> [] \<or> preds (prune s) \<noteq> []"
  shows "(\<forall>p \<in> set (prey s'). in_world (pos p)) \<and> (\<forall>p \<in> set (preds s'). in_world (pos p))"
proof -
  from sim_tick_shape [OF assms] obtain us bornp vs bornd where
    u: "length us = length (prey (prune s))"
      "\<forall>i<length (prey (prune s)). \<exists>fs1 r1 fs2 r2.
          Prey_update (prey (prune s) ! i) (register (food (prune s))) fs1
            (register (preds (prune s))) (preds (prune s)) r1 = Inr (us ! i, fs2, r2)"
      "length (prey s') = length us + length bornp"
      "\<forall>i<length us.
          prey s' ! i = (if energy (us ! i) > REPRO_COST_PREY + 50
                         then (us ! i)\<lparr>energy := energy (us ! i) - REPRO_COST_PREY\<rparr> else us ! i)
        \<or> prey s' ! i = (if energy (us ! i) > REPRO_COST_PREY + 50
                         then (us ! i)\<lparr>energy := energy (us ! i) - REPRO_COST_PREY\<rparr> else us ! i)
                        \<lparr>active := False\<rparr>"
      "drop (length us) (prey s') = bornp"
      "map pos bornp = map pos (filter (\<lambda>u. energy u > REPRO_COST_PREY + 50) us)" and
    v: "length vs = length (preds (prune s))"
      "\<forall>i<length (preds (prune s)). \<exists>ys1 r1 ys2 r2.
          Predator_update (preds (prune s) ! i) (register (prey (prune s))) ys1 r1
            = Inr (vs ! i, ys2, r2)"
      "preds s' = map (\<lambda>v. if energy v > REPRO_COST_PRED + 50
                            then v\<lparr>energy := energy v - REPRO_COST_PRED\<rparr> else v) vs @ bornd"
      "map pos bornd = map pos (filter (\<lambda>v. energy v > REPRO_COST_PRED + 50) vs)"
    by blast
  have us: "in_world (pos x)" if "x \<in> set us" for x
  proof -
    from that obtain i where "i < length us" "x = us ! i" by (auto simp: in_set_conv_nth)
    with u(1,2) show ?thesis by (auto dest: Prey_update_in_world)
  qed
  have vs: "in_world (pos x)" if "x \<in> set vs" for x
  proof -
    from that obtain i where "i < length vs" "x = vs ! i" by (auto simp: in_set_conv_nth)
    with v(1,2) show ?thesis by (auto dest: Predator_update_in_world)
  qed
  have bp: "in_world (pos c)" if "c \<in> set bornp" for c
  proof -
    from that have "pos c \<in> set (map pos bornp)" by simp
    then have "pos c \<in> pos ` set us" unfolding u(6) by auto
    with us show ?thesis by auto
  qed
  have bd: "in_world (pos c)" if "c \<in> set bornd" for c
  proof -
    from that have "pos c \<in> set (map pos bornd)" by simp
    then have "pos c \<in> pos ` set vs" unfolding v(4) by auto
    with vs show ?thesis by auto
  qed
  have "in_world (pos p)" if "p \<in> set (prey s')" for p
  proof -
    have "set (prey s') = set (take (length us) (prey s')) \<union> set (drop (length us) (prey s'))"
      by (simp only: set_append [symmetric] append_take_drop_id)
    with that u(5) consider "p \<in> set (take (length us) (prey s'))" | "p \<in> set bornp"
      by auto
    then show ?thesis
    proof cases
      case 1
      then obtain i where i: "i < length us" "p = prey s' ! i"
        by (auto simp: in_set_conv_nth)
      let ?x = "if energy (us ! i) > REPRO_COST_PREY + 50
                then (us ! i)\<lparr>energy := energy (us ! i) - REPRO_COST_PREY\<rparr> else us ! i"
      have x: "pos ?x = pos (us ! i)" by simp
      from i(1) u(4) consider "prey s' ! i = ?x" | "prey s' ! i = ?x\<lparr>active := False\<rparr>"
        by blast
      then have "pos (prey s' ! i) = pos (us ! i)"
      proof cases
        case 1
        then show ?thesis using x by simp
      next
        case 2
        then have "pos (prey s' ! i) = pos ?x" by simp
        then show ?thesis using x by simp
      qed
      moreover have "in_world (pos (us ! i))" using us i(1) by simp
      ultimately show ?thesis by (simp add: i(2))
    next
      case 2
      then show ?thesis by (rule bp)
    qed
  qed
  moreover have "in_world (pos p)" if "p \<in> set (preds s')" for p
  proof -
    let ?f = "\<lambda>v. if energy v > REPRO_COST_PRED + 50
                  then v\<lparr>energy := energy v - REPRO_COST_PRED\<rparr> else v"
    from that consider "p \<in> set bornd" | x where "x \<in> set vs" "p = ?f x"
      unfolding v(3) by auto
    then show ?thesis
    proof cases
      case 1
      then show ?thesis by (rule bd)
    next
      case 2
      have "pos (?f x) = pos x" by simp
      with 2 vs show ?thesis by simp
    qed
  qed
  ultimately show ?thesis by blast
qed

subsection \<open>Spawning a predator\<close>

lemma rng_Z_tail: "(\<lambda>n. rng_Z (Suc (Suc (Suc n)))) = rng_half"
  by (simp add: rng_Z_def rng_half_def)

lemma pred_Z_fields: "pos pred_Z = (- 280, 280)" "active pred_Z" "energy pred_Z = 300"
  by (simp_all add: pred_Z_def predator_at_def)

lemma click_Z:
  "handle_event (MOUSEBUTTONDOWN 1 (0, 0)) app_Z rng_Z = Inr (app_Z\<lparr>preds := [pred_Z]\<rparr>, rng_half)"
  by (simp add: handle_event_click Let_def unapply_def vdiv_def)
     (simp add: app_Z_def app_A_def camera_Z_def Predator_init_def Agent_init_def uniform_eq
        dna_or_default_def pred_Z_def predator_at_def rng_Z_tail, simp add: rng_Z_def)

lemma nearby_Z_pred: "get_nearby (register [pred_Z]) (0, 0) 1 = []"
  by (simp add: get_nearby_register square_def pred_Z_fields CELL_SIZE_def upto_rec1)

lemma prey_A_pos: "pos prey_A = (0, 0)"
  by (simp add: prey_A_def prey_at_def)

lemma nearby_Z_prey: "get_nearby (register [prey_A]) (- 280, 280) 2 = []"
  by (simp add: get_nearby_register square_def prey_A_pos CELL_SIZE_def upto_rec1)

lemma Prey_update_AZ:
  "Prey_update prey_A (register [food_A]) [food_A] (register [pred_Z]) [pred_Z] rng_half
     = Inr (prey_A', [food_A\<lparr>active := False\<rparr>], rng_half)"
  by (simp add: Prey_update_def Let_def prey_A_def prey_A'_def nearby_Z_pred nearby_A food_A_fields
      prey_at_def PREY_DNA_def PREY_METABOLISM_def VECTOR_EPSILON_def WORLD_W_def WORLD_H_def
      Prey_flee_or_eat_def Prey_wander_def dna_get_def distance_to_def vlength_def
      steer_def scale_to_length_def update_physics_def edges_def example_sqrts)

lemma Predator_update_Z:
  "Predator_update pred_Z (register [prey_A]) ys rng_half = Inr (pred_Z', ys, rng_half)"
  by (simp add: Predator_update_def Let_def pred_Z_def pred_Z'_def nearby_Z_prey
      predator_at_def PRED_DNA_def PRED_METABOLISM_def VECTOR_EPSILON_def WORLD_W_def WORLD_H_def
      Predator_hunt_or_patrol_def dna_get_def vlength_def uniform_eq
      update_physics_def edges_def sqrt_1_4 rng_half_def)

lemma pred_reproduce_Z: "pred_reproduce pred_Z' r = (pred_Z', [], r)"
  by (simp add: pred_reproduce_def pred_Z'_def predator_at_def REPRO_COST_PRED_def)

lemma sim_tick_Z:
  "sim_tick 1 (app_Z\<lparr>preds := [pred_Z], camera := Camera_update camera_Z\<rparr>) rng_half
     = Inr (app_Z', rng_half)"
  by (simp add: sim_tick_def Let_def prune_def)
     (simp add: app_Z_def app_Z'_def app_A_def app_A'_def register_grids_def food_regrowth_A
        Prey_update_AZ prey_reproduce_A Predator_update_Z pred_reproduce_Z stats_update_def
        Let_def food_A_fields alive_def pred_Z_fields, simp add: prey_A_def prey_at_def)

lemma run_sim_logic_Z:
  "run_sim_logic [MOUSEBUTTONDOWN 1 (0, 0)] 1 app_Z rng_Z = Inr (app_Z', rng_half)"
proof -
  have h: "handle_events [MOUSEBUTTONDOWN 1 (0, 0)] app_Z rng_Z
      = Inr (app_Z\<lparr>preds := [pred_Z]\<rparr>, rng_half)"
    by (simp only: handle_events.simps click_Z ebind_Inr split_conv)
  have c: "(app_Z\<lparr>preds := [pred_Z]\<rparr>)\<lparr>camera := Camera_update (camera (app_Z\<lparr>preds := [pred_Z]\<rparr>))\<rparr>
      = app_Z\<lparr>preds := [pred_Z], camera := Camera_update camera_Z\<rparr>"
    by (simp add: app_Z_def)
  show ?thesis
    by (simp only: run_sim_logic_def h ebind_Inr split_conv c sim_tick_Z)
qed

lemma Predator_init_alive: "alive (fst (Predator_init x y d r))"
  by (simp add: Predator_init_def Agent_init_def uniform_eq alive_def)

lemma click_Inr:
  assumes "handle_event (MOUSEBUTTONDOWN 1 (mx, my)) s r = Inr (s1, r1)"
  shows "\<exists>p. preds s1 = preds s @ [p] \<and> prey s1 = prey s \<and> food s1 = food s
      \<and> unapply (camera s) (real_of_int mx, real_of_int my) = Inr (pos p)
      \<and> active p \<and> energy p = 300 \<and> acc p = (0, 0) \<and> alive p"
proof -
  from assms obtain wp where
    u: "unapply (camera s) (real_of_int mx, real_of_int my) = Inr wp" and
    s1: "s1 = s\<lparr>preds := preds s @ [fst (Predator_init (fst wp) (snd wp) None r)]\<rparr>"
    by (auto simp: handle_event_click ebind_Inr_iff)
  obtain p r' where p: "Predator_init (fst wp) (snd wp) None r = (p, r')"
    by (cases "Predator_init (fst wp) (snd wp) None r")
  from Predator_init_fields [OF p] have "pos p = wp" "active p" "energy p = 300" "acc p = (0, 0)"
    by simp_all
  moreover have "alive p" using Predator_init_alive [of "fst wp" "snd wp" None r] p by simp
  ultimately show ?thesis
    using u s1 p by simp
qed

text \<open>
  C9 (as amended). A left click is never rejected: while the zoom of the camera is not zero,
  handling it returns. It appends one predator to the list, active, with energy 300, at
  exactly the world position that the camera computes from the mouse position, inside the
  world or not: nothing clamps or wraps the position when the predator is created. A call of
  \<^verbatim>\<open>run_sim_logic\<close> whose input is such a click, when it returns, leaves a list of predators
  that is not empty; and every call that returns leaves every predator and every prey at a
  position of the closed rectangle \<open>0 \<le> x \<le> WORLD_W\<close>, \<open>0 \<le> y \<le> WORLD_H\<close>: the wrap of
  the first update, in the same call, brings the new predator in.
\<close>

theorem spawn_not_clamped:
  "(zoom_level (camera s) \<noteq> 0 \<longrightarrow>
      (\<exists>s1 r1. handle_event (MOUSEBUTTONDOWN 1 (mx, my)) s r = Inr (s1, r1)))
   \<and> (\<forall>s1 r1. handle_event (MOUSEBUTTONDOWN 1 (mx, my)) s r = Inr (s1, r1) \<longrightarrow>
        (\<exists>p. preds s1 = preds s @ [p]
            \<and> unapply (camera s) (real_of_int mx, real_of_int my) = Inr (pos p)
            \<and> pos p = vmul (vsub (real_of_int mx, real_of_int my) (offset (camera s)))
                         (1 / zoom_level (camera s))
            \<and> active p \<and> energy p = 300))
   \<and> (\<forall>t s2 r2. run_sim_logic [MOUSEBUTTONDOWN 1 (mx, my)] t s r = Inr (s2, r2) \<longrightarrow>
        preds s2 \<noteq> [])
   \<and> (\<forall>evs t s2 r2. run_sim_logic evs t s r = Inr (s2, r2) \<longrightarrow>
        (\<forall>q \<in> set (preds s2). in_world (pos q)) \<and> (\<forall>q \<in> set (prey s2). in_world (pos q)))"
proof (intro conjI impI allI)
  assume "zoom_level (camera s) \<noteq> 0"
  then show "\<exists>s1 r1. handle_event (MOUSEBUTTONDOWN 1 (mx, my)) s r = Inr (s1, r1)"
    by (simp add: handle_event_click unapply_def vdiv_def)
next
  fix s1 r1 assume h: "handle_event (MOUSEBUTTONDOWN 1 (mx, my)) s r = Inr (s1, r1)"
  from click_Inr [OF h] obtain p where p: "preds s1 = preds s @ [p]"
    "unapply (camera s) (real_of_int mx, real_of_int my) = Inr (pos p)" "active p" "energy p = 300"
    by blast
  from p(2) have "pos p = vmul (vsub (real_of_int mx, real_of_int my) (offset (camera s)))
                         (1 / zoom_level (camera s))"
    by (auto simp: unapply_def vdiv_def split: if_splits)
  with p show "\<exists>p. preds s1 = preds s @ [p]
            \<and> unapply (camera s) (real_of_int mx, real_of_int my) = Inr (pos p)
            \<and> pos p = vmul (vsub (real_of_int mx, real_of_int my) (offset (camera s)))
                         (1 / zoom_level (camera s))
            \<and> active p \<and> energy p = 300"
    by blast
next
  fix t s2 r2 assume "run_sim_logic [MOUSEBUTTONDOWN 1 (mx, my)] t s r = Inr (s2, r2)"
  then obtain s1 r1 where
    h: "handle_event (MOUSEBUTTONDOWN 1 (mx, my)) s r = Inr (s1, r1)" and
    k: "sim_tick t (s1\<lparr>camera := Camera_update (camera s1)\<rparr>) r1 = Inr (s2, r2)"
    by (auto simp: run_sim_logic_def ebind_Inr_iff)
  from click_Inr [OF h] obtain p where p: "preds s1 = preds s @ [p]" "alive p"
    by blast
  then have ne: "preds (prune (s1\<lparr>camera := Camera_update (camera s1)\<rparr>)) \<noteq> []"
    by (simp add: prune_lists)
  then have ne': "prey (prune (s1\<lparr>camera := Camera_update (camera s1)\<rparr>)) \<noteq> []
      \<or> preds (prune (s1\<lparr>camera := Camera_update (camera s1)\<rparr>)) \<noteq> []"
    by simp
  from sim_tick_shape [OF k ne'] obtain vs bornd where
    "length vs = length (preds (prune (s1\<lparr>camera := Camera_update (camera s1)\<rparr>)))"
    "preds s2 = map (\<lambda>v. if energy v > REPRO_COST_PRED + 50
                            then v\<lparr>energy := energy v - REPRO_COST_PRED\<rparr> else v) vs @ bornd"
    by blast
  with ne show "preds s2 \<noteq> []" by auto
next
  fix evs t s2 r2 assume "run_sim_logic evs t s r = Inr (s2, r2)"
  then obtain s1 r1 where
    k: "sim_tick t (s1\<lparr>camera := Camera_update (camera s1)\<rparr>) r1 = Inr (s2, r2)"
    by (auto simp: run_sim_logic_def ebind_Inr_iff)
  let ?s = "s1\<lparr>camera := Camera_update (camera s1)\<rparr>"
  have "(\<forall>q \<in> set (preds s2). in_world (pos q)) \<and> (\<forall>q \<in> set (prey s2). in_world (pos q))"
  proof (cases "prey (prune ?s) = [] \<and> preds (prune ?s) = []")
    case True
    with k sim_tick_terminal [of ?s t r1] have "s2 = (prune ?s)\<lparr>state := GAMEOVER\<rparr>"
      by simp
    with True show ?thesis by simp
  next
    case False
    then have "prey (prune ?s) \<noteq> [] \<or> preds (prune ?s) \<noteq> []" by simp
    from sim_tick_in_world [OF k this] show ?thesis by simp
  qed
  then show "\<forall>q \<in> set (preds s2). in_world (pos q)" "\<forall>q \<in> set (prey s2). in_world (pos q)"
    by simp_all
qed

theorem spawn_not_clamped_witness:
  "zoom_level (camera app_Z) = 1 / 2
   \<and> handle_event (MOUSEBUTTONDOWN 1 (0, 0)) app_Z rng_Z = Inr (app_Z\<lparr>preds := [pred_Z]\<rparr>, rng_half)
   \<and> run_sim_logic [MOUSEBUTTONDOWN 1 (0, 0)] 1 app_Z rng_Z = Inr (app_Z', rng_half)
   \<and> (\<exists>p. preds (app_Z\<lparr>preds := [pred_Z]\<rparr>) = preds app_Z @ [p]
         \<and> unapply (camera app_Z) (real_of_int 0, real_of_int 0) = Inr (pos p))
   \<and> preds app_Z' \<noteq> [] \<and> preds app_Z' = [pred_Z'] \<and> in_world (pos pred_Z')"
proof -
  have z: "zoom_level (camera app_Z) = 1 / 2"
    by (simp add: app_Z_def camera_Z_def)
  note t = spawn_not_clamped [of app_Z 0 0 rng_Z]
  from t [THEN conjunct2, THEN conjunct1, rule_format, OF click_Z]
  have 1: "\<exists>p. preds (app_Z\<lparr>preds := [pred_Z]\<rparr>) = preds app_Z @ [p]
         \<and> unapply (camera app_Z) (real_of_int 0, real_of_int 0) = Inr (pos p)"
    by blast
  from t [THEN conjunct2, THEN conjunct2, THEN conjunct1, rule_format, OF run_sim_logic_Z]
  have 2: "preds app_Z' \<noteq> []"
    by simp
  from t [THEN conjunct2, THEN conjunct2, THEN conjunct2, rule_format, OF run_sim_logic_Z]
  have 3: "in_world (pos pred_Z')"
    by (simp add: app_Z'_def)
  from z 1 2 3 click_Z run_sim_logic_Z show ?thesis
    by (simp add: app_Z'_def)
qed

theorem spawn_not_clamped_counterexample:
  "handle_event (MOUSEBUTTONDOWN 1 (0, 0)) app_Z rng_Z = Inr (app_Z\<lparr>preds := [pred_Z]\<rparr>, rng_half)
   \<and> preds app_Z = []
   \<and> pos pred_Z = (- 280, 280)
   \<and> fst (pos pred_Z) < 0
   \<and> \<not> in_world (pos pred_Z)"
  using click_Z
  by (simp add: pred_Z_fields in_world_def app_Z_def app_A_def)

end
